theory Spec2Isabelle
  imports Main "HOL-Library.Multiset" "HOL-Library.Char_ord" "HOL-Library.List_Lexorder"
begin

section \<open>The type model consumed by the generator\<close>

text \<open>
  The generator reads a service description (types, methods, unions, enums) and writes one
  zod schema declaration per entity. The records below follow the fields the source reads.
  A field that the source reads through a \<open>.value\<close> wrapper is stored unwrapped.
\<close>

datatype member_kind = Parameter | Property | MapKey | MapValue

text \<open>
  Validation rules, tagged by their \<open>id\<close>. Numeric payloads are integers: the model
  covers the integral values of JavaScript numbers. \<open>OtherRule\<close> stands for every rule
  id the generator never looks up.
\<close>

datatype rule =
    StringMinLength int
  | StringMaxLength int
  | StringPattern string
  | StringEnum "string list"
  | NumberGT int
  | NumberGTE int
  | NumberLT int
  | NumberLTE int
  | NumberMultipleOf int
  | ArrayMinItems int
  | ArrayMaxItems int
  | ObjectMinProperties int
  | ObjectMaxProperties int
  | OtherRule string

text \<open>
  A member is a \<open>Parameter\<close>, \<open>Property\<close>, \<open>MapKey\<close>, \<open>MapValue\<close> or a
  \<open>TypedValue\<close> (a union variant). Only the first four carry a \<open>kind\<close> field, so
  \<open>kind\<close> is \<open>None\<close> for a \<open>TypedValue\<close>. \<open>required\<close> is the answer of the
  library predicate \<open>isRequired\<close>; \<open>const_value\<close> and \<open>default_value\<close> hold the text
  that a template literal prints for the value.
\<close>

record member =
  kind :: "member_kind option"
  member_name :: string
  isPrimitive :: bool
  typeName :: string
  isArray :: bool
  required :: bool
  const_value :: "string option"
  default_value :: "string option"
  rules :: "rule list"

record map_properties =
  key :: member
  map_value :: member
  requiredKeys :: "string list"

record type_element =
  properties :: "member list"
  mapProperties :: "map_properties option"
  type_rules :: "rule list"

record method_element =
  method_name :: string
  parameters :: "member list"

record union_element =
  members :: "member list"
  discriminator :: "string option"

record enum_element =
  enum_values :: "string list"

datatype element =
    TypeEl type_element
  | MethodEl method_element
  | UnionEl union_element
  | EnumEl enum_element

record schema =
  name :: string
  element :: element

record http_parameter =
  http_name :: string
  http_in :: string

text \<open>
  The collaborators that live outside the repository: the case converters of the
  \<open>case\<close> package, the string comparison \<open>String.prototype.localeCompare\<close> of the
  runtime, and the lookup \<open>getHttpMethodByName\<close> of the HTTP binding of a method (already
  applied to the service).
\<close>

record externals =
  pascal :: "string \<Rightarrow> string"
  camel :: "string \<Rightarrow> string"
  localeCompare :: "string \<Rightarrow> string \<Rightarrow> int"
  getHttpMethodByName :: "string \<Rightarrow> http_parameter list option"

section \<open>The dependency resolver: \<open>sort\<close>\<close>

text \<open>
  \<open>Array.prototype.sort\<close> with a comparison function: a stable sort, modelled as
  insertion from the right, each element going in front of the first element it does not
  compare greater than. The language fixes the result of the sort only for a consistent
  comparison function; for such a function every stable sort returns the same array.
\<close>

fun insort_cmp :: "('a \<Rightarrow> 'a \<Rightarrow> int) \<Rightarrow> 'a \<Rightarrow> 'a list \<Rightarrow> 'a list" where
  "insort_cmp c x [] = [x]"
| "insort_cmp c x (y # ys) = (if c x y \<le> 0 then x # y # ys else y # insort_cmp c x ys)"

definition array_sort :: "('a \<Rightarrow> 'a \<Rightarrow> int) \<Rightarrow> 'a list \<Rightarrow> 'a list" where
  "array_sort c xs = foldr (insort_cmp c) xs []"

text \<open>The names an entity refers to: the \<open>complexMembers\<close> of the switch in \<open>sort\<close>.\<close>

definition complexMembers :: "externals \<Rightarrow> schema \<Rightarrow> string list" where
  "complexMembers X s =
     (case element s of
        TypeEl t \<Rightarrow>
          (let propertyMembers =
                 map (\<lambda>p. pascal X (typeName p)) (filter (\<lambda>p. \<not> isPrimitive p) (properties t));
               mapKeyMembers =
                 (case mapProperties t of
                    None \<Rightarrow> []
                  | Some mp \<Rightarrow>
                      if \<not> isPrimitive (key mp) then [pascal X (typeName (key mp))] else []);
               mapValueMembers =
                 (case mapProperties t of
                    None \<Rightarrow> []
                  | Some mp \<Rightarrow>
                      if \<not> isPrimitive (map_value mp)
                      then [pascal X (typeName (map_value mp))] else [])
           in propertyMembers @ mapKeyMembers @ mapValueMembers)
      | MethodEl m \<Rightarrow>
          map (\<lambda>p. pascal X (typeName p)) (filter (\<lambda>p. \<not> isPrimitive p) (parameters m))
      | UnionEl u \<Rightarrow>
          map (\<lambda>m. pascal X (typeName m)) (filter (\<lambda>m. \<not> isPrimitive m) (members u))
      | EnumEl e \<Rightarrow> [])"

text \<open>The test that sends an entity to \<open>sortable\<close> in the current pass.\<close>

definition is_sortable :: "externals \<Rightarrow> string set \<Rightarrow> schema \<Rightarrow> bool" where
  "is_sortable X sortedNames s =
     (complexMembers X s = [] \<or>
      list_all (\<lambda>n. n \<in> sortedNames \<or> n = name s) (complexMembers X s))"

definition sortable_of :: "externals \<Rightarrow> string set \<Rightarrow> schema list \<Rightarrow> schema list" where
  "sortable_of X sortedNames unsorted = filter (is_sortable X sortedNames) unsorted"

definition unsortable_of :: "externals \<Rightarrow> string set \<Rightarrow> schema list \<Rightarrow> schema list" where
  "unsortable_of X sortedNames unsorted =
     filter (\<lambda>s. \<not> is_sortable X sortedNames s) unsorted"

definition sortedSortable :: "externals \<Rightarrow> string set \<Rightarrow> schema list \<Rightarrow> schema list" where
  "sortedSortable X sortedNames unsorted =
     array_sort (\<lambda>a b. localeCompare X (name a) (name b)) (sortable_of X sortedNames unsorted)"

text \<open>
  The \<open>while\<close> loop of \<open>sort\<close>, with its four variables \<open>sorted\<close> (written
  \<open>sorted_out\<close> here), \<open>unsorted\<close>, \<open>sortedNames\<close> and \<open>prevUnsortedLength\<close>.
  The result is the pair \<open>(sorted, circular)\<close>.
\<close>

function sort_loop ::
  "externals \<Rightarrow> schema list \<Rightarrow> schema list \<Rightarrow> string set \<Rightarrow> nat \<Rightarrow> schema list \<times> schema list"
where
  "sort_loop X sorted_out unsorted sortedNames prevUnsortedLength =
     (if length unsorted > 0 then
        (let unsortable = unsortable_of X sortedNames unsorted;
             sortable = sortable_of X sortedNames unsorted;
             sorted_out' = sorted_out @ sortedSortable X sortedNames unsorted;
             sortedNames' = sortedNames \<union> set (map name sortable)
         in if prevUnsortedLength = length unsortable
            then (sorted_out', unsortable)
            else sort_loop X sorted_out' unsortable sortedNames' (length unsortable))
      else (sorted_out, []))"
  by pat_completeness auto
termination
proof (relation "measure (\<lambda>(X, sorted_out, unsorted, sortedNames, prev).
          2 * length unsorted + (if prev = length unsorted then 0 else 1))")
  show "wf (measure (\<lambda>(X, sorted_out, unsorted, sortedNames, prev).
          2 * length unsorted + (if prev = length unsorted then 0 else 1)))"
    by simp
next
  fix X :: externals and sorted_out unsorted :: "schema list" and sortedNames :: "string set"
    and prev :: nat and unsortable sortable sorted_out' :: "schema list"
    and sortedNames' :: "string set"
  assume u: "unsortable = unsortable_of X sortedNames unsorted"
    and ne: "prev \<noteq> length unsortable"
  have le: "length unsortable \<le> length unsorted"
    unfolding u unsortable_of_def by simp
  show "((X, sorted_out', unsortable, sortedNames', length unsortable),
         (X, sorted_out, unsorted, sortedNames, prev))
        \<in> measure (\<lambda>(X, sorted_out, unsorted, sortedNames, prev).
            2 * length unsorted + (if prev = length unsorted then 0 else 1))"
    using le ne by auto
qed

definition sort :: "externals \<Rightarrow> schema list \<Rightarrow> schema list \<times> schema list" where
  "sort X iterable = sort_loop X [] iterable {} (length iterable)"

section \<open>Text building\<close>

text \<open>
  \<open>Array.prototype.join\<close>, the decimal text of an integer as a template literal prints
  it, and the single quote character, which the emitted text contains. \<open>show_int\<close>
  prints every digit: it is the text of the template literal for integers of magnitude
  below \<open>10^21\<close>, where JavaScript changes to the exponent form.
\<close>

fun join :: "string \<Rightarrow> string list \<Rightarrow> string" where
  "join sep [] = []"
| "join sep [x] = x"
| "join sep (x # y # ys) = x @ sep @ join sep (y # ys)"

fun show_nat :: "nat \<Rightarrow> string" where
  "show_nat n =
     (if n < 10 then [''0123456789'' ! n]
      else show_nat (n div 10) @ [''0123456789'' ! (n mod 10)])"

declare show_nat.simps [simp del]

definition show_int :: "int \<Rightarrow> string" where
  "show_int i = (if i < 0 then ''-'' @ show_nat (nat (- i)) else show_nat (nat i))"

definition quote :: string where
  "quote = [CHR 0x27]"

definition quoted :: "string \<Rightarrow> string" where
  "quoted v = quote @ v @ quote"

text \<open>\<open>this.zod.fn('z')\<close>: the name under which the zod import is used.\<close>

definition z :: string where
  "z = ''z''"

section \<open>Looking up rules\<close>

text \<open>
  \<open>rules.find((r) => r.id === ...)\<close> returns the first rule with the given id; the
  functions below give the payload of that rule.
\<close>

fun find_rule :: "(rule \<Rightarrow> 'a option) \<Rightarrow> rule list \<Rightarrow> 'a option" where
  "find_rule sel [] = None"
| "find_rule sel (r # rs) = (case sel r of Some v \<Rightarrow> Some v | None \<Rightarrow> find_rule sel rs)"

fun string_min_length :: "rule \<Rightarrow> int option" where
  "string_min_length (StringMinLength n) = Some n"
| "string_min_length _ = None"

fun string_max_length :: "rule \<Rightarrow> int option" where
  "string_max_length (StringMaxLength n) = Some n"
| "string_max_length _ = None"

fun string_pattern :: "rule \<Rightarrow> string option" where
  "string_pattern (StringPattern p) = Some p"
| "string_pattern _ = None"

fun string_enum :: "rule \<Rightarrow> string list option" where
  "string_enum (StringEnum vs) = Some vs"
| "string_enum _ = None"

fun number_gt :: "rule \<Rightarrow> int option" where
  "number_gt (NumberGT n) = Some n"
| "number_gt _ = None"

fun number_gte :: "rule \<Rightarrow> int option" where
  "number_gte (NumberGTE n) = Some n"
| "number_gte _ = None"

fun number_lt :: "rule \<Rightarrow> int option" where
  "number_lt (NumberLT n) = Some n"
| "number_lt _ = None"

fun number_lte :: "rule \<Rightarrow> int option" where
  "number_lte (NumberLTE n) = Some n"
| "number_lte _ = None"

fun number_multiple_of :: "rule \<Rightarrow> int option" where
  "number_multiple_of (NumberMultipleOf n) = Some n"
| "number_multiple_of _ = None"

fun array_min_items :: "rule \<Rightarrow> int option" where
  "array_min_items (ArrayMinItems n) = Some n"
| "array_min_items _ = None"

fun array_max_items :: "rule \<Rightarrow> int option" where
  "array_max_items (ArrayMaxItems n) = Some n"
| "array_max_items _ = None"

fun object_min_properties :: "rule \<Rightarrow> int option" where
  "object_min_properties (ObjectMinProperties n) = Some n"
| "object_min_properties _ = None"

fun object_max_properties :: "rule \<Rightarrow> int option" where
  "object_max_properties (ObjectMaxProperties n) = Some n"
| "object_max_properties _ = None"

section \<open>The rule mapper: \<open>buildMemberSchema\<close>\<close>

text \<open>
  The third argument of \<open>buildMemberSchema\<close>. An absent \<open>preventOptional\<close> is falsy,
  an absent \<open>circular\<close> is \<open>None\<close>.
\<close>

record options =
  preventOptional :: bool
  circular :: "schema list option"

definition no_options :: options where
  "no_options = \<lparr>preventOptional = False, circular = None\<rparr>"

definition shouldCoerce :: "externals \<Rightarrow> member \<Rightarrow> schema \<Rightarrow> bool" where
  "shouldCoerce X member parent =
     (if kind member = Some Parameter then
        (case element parent of
           MethodEl me \<Rightarrow>
             (case getHttpMethodByName X (method_name me) of
                None \<Rightarrow> False
              | Some httpParams \<Rightarrow>
                  (case find (\<lambda>p. camel X (http_name p) = camel X (member_name member)) httpParams of
                     None \<Rightarrow> False
                   | Some httpParam \<Rightarrow>
                       http_in httpParam = ''header'' \<or> http_in httpParam = ''query''
                       \<or> http_in httpParam = ''path''))
         | _ \<Rightarrow> False)
      else False)"

text \<open>The \<open>'string'\<close> case of the switch.\<close>

definition string_length_parts :: "member \<Rightarrow> string list" where
  "string_length_parts member =
     (let minLengthRule = find_rule string_min_length (rules member);
          maxLengthRule = find_rule string_max_length (rules member);
          max_part = (case maxLengthRule of
                        None \<Rightarrow> []
                      | Some n \<Rightarrow> [''max('' @ show_int n @ '')''])
      in case minLengthRule of
           None \<Rightarrow> max_part
         | Some n \<Rightarrow>
             if maxLengthRule = Some n then [''length('' @ show_int n @ '')'']
             else (if n = 1 then [''nonempty()''] else [''min('' @ show_int n @ '')''])
                  @ max_part)"

definition string_parts :: "member \<Rightarrow> string list" where
  "string_parts member =
     (case const_value member of
        Some c \<Rightarrow> [z @ ''.literal('' @ quoted c @ '')'']
      | None \<Rightarrow>
          (case find_rule string_enum (rules member) of
             Some vs \<Rightarrow> [z @ ''.enum('' @ join '', '' (map quoted vs) @ '')'']
           | None \<Rightarrow>
               [z @ ''.string()''] @ string_length_parts member
               @ (case find_rule string_pattern (rules member) of
                    None \<Rightarrow> []
                  | Some p \<Rightarrow> [''regex(/'' @ p @ ''/)''])))
     @ (case default_value member of
          None \<Rightarrow> []
        | Some d \<Rightarrow> [''default('' @ quoted d @ '')''])"

text \<open>The numeric cases of the switch.\<close>

definition number_rule_parts :: "member \<Rightarrow> string list" where
  "number_rule_parts member =
     (case find_rule number_gt (rules member) of
        None \<Rightarrow> []
      | Some n \<Rightarrow> if n = 0 then [''positive()''] else [''gt('' @ show_int n @ '')''])
     @ (case find_rule number_gte (rules member) of
          None \<Rightarrow> []
        | Some n \<Rightarrow> if n = 0 then [''nonnegative()''] else [''gte('' @ show_int n @ '')''])
     @ (case find_rule number_lt (rules member) of
          None \<Rightarrow> []
        | Some n \<Rightarrow> if n = 0 then [''negative()''] else [''lt('' @ show_int n @ '')''])
     @ (case find_rule number_lte (rules member) of
          None \<Rightarrow> []
        | Some n \<Rightarrow> if n = 0 then [''nonpositive()''] else [''lte('' @ show_int n @ '')''])
     @ (case find_rule number_multiple_of (rules member) of
          None \<Rightarrow> []
        | Some n \<Rightarrow> [''multipleOf('' @ show_int n @ '')''])"

definition coerce_text :: "externals \<Rightarrow> member \<Rightarrow> schema \<Rightarrow> string" where
  "coerce_text X member parent = (if shouldCoerce X member parent then ''.coerce'' else [])"

definition number_parts :: "externals \<Rightarrow> member \<Rightarrow> schema \<Rightarrow> string list" where
  "number_parts X member parent =
     (case const_value member of
        Some c \<Rightarrow> [z @ ''.literal('' @ c @ '')'']
      | None \<Rightarrow>
          [z @ coerce_text X member parent @ ''.number()'']
          @ (if typeName member = ''integer'' \<or> typeName member = ''long''
             then [''int()''] else [])
          @ number_rule_parts member)
     @ (case default_value member of
          None \<Rightarrow> []
        | Some d \<Rightarrow> [''default('' @ d @ '')''])"

text \<open>The \<open>'boolean'\<close> case of the switch.\<close>

definition boolean_parts :: "externals \<Rightarrow> member \<Rightarrow> schema \<Rightarrow> string list" where
  "boolean_parts X member parent =
     (case const_value member of
        Some c \<Rightarrow> [z @ ''.literal('' @ c @ '')'']
      | None \<Rightarrow> [z @ coerce_text X member parent @ ''.boolean()''])
     @ (case default_value member of
          None \<Rightarrow> []
        | Some d \<Rightarrow> [''default('' @ d @ '')''])"

text \<open>The whole switch over the primitive type names; an unknown name pushes nothing.\<close>

definition primitive_parts :: "externals \<Rightarrow> member \<Rightarrow> schema \<Rightarrow> string list" where
  "primitive_parts X member parent =
     (if typeName member = ''null'' then [z @ ''.literal(null)'']
      else if typeName member = ''string'' then string_parts member
      else if typeName member \<in> {''number'', ''integer'', ''long'', ''float'', ''double''}
        then number_parts X member parent
      else if typeName member = ''boolean'' then boolean_parts X member parent
      else if typeName member \<in> {''date'', ''date-time''} then [z @ ''.coerce.date()'']
      else if typeName member \<in> {''binary'', ''untyped''} then [z @ ''.any()'']
      else [])"

text \<open>The branch of a member that refers to another entity.\<close>

definition is_lazy :: "externals \<Rightarrow> member \<Rightarrow> schema \<Rightarrow> options \<Rightarrow> bool" where
  "is_lazy X member parent opts =
     (camel X (typeName member) = camel X (name parent) \<or>
      (case circular opts of
         None \<Rightarrow> False
       | Some cs \<Rightarrow> list_ex (\<lambda>s. camel X (name s) = camel X (typeName member)) cs))"

definition reference_parts :: "externals \<Rightarrow> member \<Rightarrow> schema \<Rightarrow> options \<Rightarrow> string list" where
  "reference_parts X member parent opts =
     (if is_lazy X member parent opts
      then [z @ ''.lazy(()=>'' @ pascal X (typeName member) @ ''Schema)'']
      else [pascal X (typeName member) @ ''Schema''])"

definition array_parts :: "member \<Rightarrow> string list" where
  "array_parts member =
     (if isArray member then
        [''array()'']
        @ (case find_rule array_min_items (rules member) of
             None \<Rightarrow> []
           | Some n \<Rightarrow> if n = 1 then [''nonempty()''] else [''min('' @ show_int n @ '')''])
        @ (case find_rule array_max_items (rules member) of
             None \<Rightarrow> []
           | Some n \<Rightarrow> [''max('' @ show_int n @ '')''])
      else [])"

definition optional_parts :: "member \<Rightarrow> options \<Rightarrow> string list" where
  "optional_parts member opts =
     (if \<not> required member \<and> kind member \<noteq> Some MapKey \<and> kind member \<noteq> Some MapValue
      then (if \<not> preventOptional opts \<and> (\<not> isPrimitive member \<or> default_value member = None)
            then [''optional()''] else [])
      else [])"

text \<open>The array \<open>schema\<close> of \<open>buildMemberSchema\<close>, and the function itself.\<close>

definition schema_parts :: "externals \<Rightarrow> member \<Rightarrow> schema \<Rightarrow> options \<Rightarrow> string list" where
  "schema_parts X member parent opts =
     (if isPrimitive member then primitive_parts X member parent
      else reference_parts X member parent opts)
     @ array_parts member
     @ optional_parts member opts"

definition buildMemberSchema :: "externals \<Rightarrow> member \<Rightarrow> schema \<Rightarrow> options \<Rightarrow> string" where
  "buildMemberSchema X member parent opts = join ''.'' (schema_parts X member parent opts)"

definition buildMember :: "externals \<Rightarrow> member \<Rightarrow> schema \<Rightarrow> schema list \<Rightarrow> string list" where
  "buildMember X member parent circ =
     [camel X (member_name member) @ '': ''
      @ buildMemberSchema X member parent \<lparr>preventOptional = False, circular = Some circ\<rparr>
      @ '','']"

definition buildRequiredKey ::
  "externals \<Rightarrow> string \<Rightarrow> member \<Rightarrow> schema \<Rightarrow> schema list \<Rightarrow> string list" where
  "buildRequiredKey X nm v parent circ =
     [nm @ '': ''
      @ buildMemberSchema X v parent \<lparr>preventOptional = False, circular = Some circ\<rparr>
      @ '','']"

section \<open>The schema synthesizer: \<open>buildSchema\<close> and \<open>body\<close>\<close>

text \<open>
  The \<open>'Type'\<close> case of \<open>buildSchema\<close>, in the order of its \<open>yield\<close>s: the key
  set and key schema constants, the export line, the structural schema, the key count
  refinements, and the per-key validation.
\<close>

definition keySetName :: "externals \<Rightarrow> schema \<Rightarrow> string" where
  "keySetName X s = '' __'' @ camel X (name s) @ ''Keys''"

definition keySchemaName :: "externals \<Rightarrow> schema \<Rightarrow> string" where
  "keySchemaName X s = '' __'' @ pascal X (name s) @ ''KeySchema''"

definition type_key_constants :: "externals \<Rightarrow> schema \<Rightarrow> type_element \<Rightarrow> string list" where
  "type_key_constants X s t =
     (case mapProperties t of
        None \<Rightarrow> []
      | Some mp \<Rightarrow>
          if rules (key mp) \<noteq> [] then
            (if properties t \<noteq> []
             then [''const '' @ keySetName X s @ '' = new Set([''
                   @ join '', '' (map (\<lambda>p. quoted (member_name p)) (properties t)) @ '']);'']
             else [])
            @ [''const '' @ keySchemaName X s @ '' = ''
               @ buildMemberSchema X (key mp) s no_options]
          else [])"

definition emittedPropCount :: "type_element \<Rightarrow> nat" where
  "emittedPropCount t =
     length (properties t)
     + (case mapProperties t of None \<Rightarrow> 0 | Some mp \<Rightarrow> length (requiredKeys mp))"

definition type_structure ::
  "externals \<Rightarrow> schema \<Rightarrow> type_element \<Rightarrow> schema list \<Rightarrow> string list" where
  "type_structure X s t circ =
     (let maxPropCount = find_rule object_max_properties (type_rules t)
      in if properties t \<noteq> []
            \<or> (case mapProperties t of None \<Rightarrow> False | Some mp \<Rightarrow> requiredKeys mp \<noteq> [])
         then
           [z @ ''.object({'']
           @ concat (map (\<lambda>member. buildMember X member s circ) (properties t))
           @ (case mapProperties t of
                None \<Rightarrow> []
              | Some mp \<Rightarrow>
                  concat (map (\<lambda>k. buildRequiredKey X (camel X k) (map_value mp) s circ)
                            (requiredKeys mp)))
           @ [''})'']
           @ (case mapProperties t of
                None \<Rightarrow> []
              | Some mp \<Rightarrow>
                  if (case maxPropCount of
                        None \<Rightarrow> True
                      | Some mx \<Rightarrow> mx > int (emittedPropCount t))
                  then [''.catchall('' @ buildMemberSchema X (map_value mp) s no_options @ '')'']
                  else [])
         else
           (case mapProperties t of
              Some mp \<Rightarrow>
                [z @ ''.record('' @ buildMemberSchema X (map_value mp) s no_options @ '')'']
            | None \<Rightarrow> [z @ ''.record('' @ z @ ''.any())'']))"

definition max_refinement :: "int \<Rightarrow> string list" where
  "max_refinement mx =
     [''.refine('',
      ''  data => Object.keys(data).length <= '' @ show_int mx @ '','',
      ''  { message: '' @ quoted (''Object must have at most '' @ show_int mx @ '' keys'')
        @ '' },'',
      '')'']"

definition min_refinement :: "int \<Rightarrow> string list" where
  "min_refinement mn =
     [''.refine('',
      ''  data => Object.keys(data).length >= '' @ show_int mn @ '','',
      ''  { message: '' @ quoted (''Object must have at least '' @ show_int mn @ '' keys'')
        @ '' },'',
      '')'']"

definition type_refinements :: "type_element \<Rightarrow> string list" where
  "type_refinements t =
     (case mapProperties t of
        None \<Rightarrow> []
      | Some mp \<Rightarrow>
          (case find_rule object_max_properties (type_rules t) of
             None \<Rightarrow> []
           | Some mx \<Rightarrow> max_refinement mx)
          @ (case find_rule object_min_properties (type_rules t) of
               None \<Rightarrow> []
             | Some mn \<Rightarrow> min_refinement mn))"

definition type_key_validation :: "externals \<Rightarrow> schema \<Rightarrow> type_element \<Rightarrow> string list" where
  "type_key_validation X s t =
     (case mapProperties t of
        None \<Rightarrow> []
      | Some mp \<Rightarrow>
          (let schemaName =
                 (if isPrimitive (key mp) then keySchemaName X s
                  else pascal X (typeName (key mp)) @ ''Schema'')
           in if rules (key mp) \<noteq> [] \<or> \<not> isPrimitive (key mp) then
                [''.superRefine((data, ctx) => {'',
                 ''  for (const key of Object.keys(data)) {'']
                @ (if properties t \<noteq> []
                   then [''    if ('' @ keySetName X s @ ''.has(key)) continue;'', '''']
                   else [])
                @ [''    const result = '' @ schemaName @ ''.safeParse(key);'',
                   ''    if (result.success) continue;'',
                   '''',
                   ''    for (const error of result.error.errors) {'',
                   ''      ctx.addIssue({'',
                   ''        code: z.ZodIssueCode.custom,'',
                   ''        message: `Invalid key: ${error.message}`,'',
                   ''        path: [key],'',
                   ''      });'',
                   ''    }'',
                   ''  }'',
                   ''})'']
              else []))"

text \<open>The \<open>'Union'\<close> case.\<close>

definition union_lines :: "externals \<Rightarrow> schema \<Rightarrow> union_element \<Rightarrow> string list" where
  "union_lines X s u =
     (let complex_members = filter (\<lambda>m. \<not> isPrimitive m) (members u)
      in case complex_members of
           [m] \<Rightarrow>
             [''export const '' @ pascal X (name s) @ ''Schema = ''
              @ pascal X (typeName m) @ ''Schema;'']
         | _ \<Rightarrow>
             (case discriminator u of
                Some d \<Rightarrow>
                  [''export const '' @ pascal X (name s) @ ''Schema = '' @ z
                   @ ''.discriminatedUnion('' @ quoted (camel X d) @ '', ['']
              | None \<Rightarrow>
                  [''export const '' @ pascal X (name s) @ ''Schema = '' @ z @ ''.union([''])
             @ map (\<lambda>member.
                      if isPrimitive member
                      then buildMemberSchema X member s
                             \<lparr>preventOptional = True, circular = None\<rparr> @ '',''
                      else pascal X (typeName member) @ ''Schema,'')
                 (members u)
             @ ['']);''])"

definition buildSchema :: "externals \<Rightarrow> schema \<Rightarrow> schema list \<Rightarrow> string list" where
  "buildSchema X s circ =
     (case element s of
        TypeEl t \<Rightarrow>
          type_key_constants X s t
          @ [''export const '' @ pascal X (name s) @ ''Schema = '']
          @ type_structure X s t circ
          @ type_refinements t
          @ type_key_validation X s t
      | MethodEl me \<Rightarrow>
          [''export const '' @ pascal X (name s) @ ''Schema = '' @ z @ ''.object({'']
          @ concat (map (\<lambda>member. buildMember X member s circ) (parameters me))
          @ [''});'']
      | UnionEl u \<Rightarrow> union_lines X s u
      | EnumEl e \<Rightarrow>
          [''export const '' @ pascal X (name s) @ ''Schema = '' @ z @ ''.enum(['']
          @ map (\<lambda>v. ''  '' @ quoted v @ '','') (enum_values e)
          @ ['']);''])"

text \<open>
  \<open>body\<close>, from the call of \<open>sort\<close> on: the worklist \<open>schemas\<close>, which \<open>body\<close>
  collects from the service with naming functions of other packages, is the argument.
\<close>

definition body :: "externals \<Rightarrow> schema list \<Rightarrow> string list" where
  "body X schemas =
     (case sort X schemas of
        (sorted_out, circ) \<Rightarrow>
          concat (map (\<lambda>s. buildSchema X s [] @ ['''']) sorted_out)
          @ concat (map (\<lambda>s. buildSchema X s circ @ ['''']) circ))"

section \<open>The generator of \<open>src/schema-file.ts\<close>\<close>

text \<open>
  The repository holds a second variant of the generator, \<open>src/schema-file.ts\<close>, written
  against the interface that tags a union as \<open>PrimitiveUnion\<close>, \<open>ComplexUnion\<close> or
  \<open>DiscriminatedUnion\<close>. It has no map properties, no default values and no circular
  list. Its definitions carry the suffix \<open>_sf\<close>. A member is the same record as above:
  \<open>isPrimitive\<close> stands for \<open>member.value.kind === 'PrimitiveValue'\<close>, and
  \<open>default_value\<close> is never read.
\<close>

datatype element_sf =
    Type_sf "member list"
  | Method_sf method_element
  | PrimitiveUnion_sf "member list"
  | ComplexUnion_sf "member list"
  | DiscriminatedUnion_sf "member list"
  | Enum_sf "string list"

record schema_sf =
  name_sf :: string
  element_sf :: element_sf

definition complexMembers_sf :: "externals \<Rightarrow> schema_sf \<Rightarrow> string list" where
  "complexMembers_sf X s =
     (case element_sf s of
        Type_sf ps \<Rightarrow> map (\<lambda>p. pascal X (typeName p)) (filter (\<lambda>p. \<not> isPrimitive p) ps)
      | Method_sf me \<Rightarrow>
          map (\<lambda>p. pascal X (typeName p)) (filter (\<lambda>p. \<not> isPrimitive p) (parameters me))
      | ComplexUnion_sf ms \<Rightarrow> map (\<lambda>m. pascal X (typeName m)) ms
      | DiscriminatedUnion_sf ms \<Rightarrow> map (\<lambda>m. pascal X (typeName m)) ms
      | PrimitiveUnion_sf ms \<Rightarrow> []
      | Enum_sf vs \<Rightarrow> [])"

definition is_sortable_sf :: "externals \<Rightarrow> string set \<Rightarrow> schema_sf \<Rightarrow> bool" where
  "is_sortable_sf X sortedNames s =
     (complexMembers_sf X s = [] \<or>
      list_all (\<lambda>n. n \<in> sortedNames \<or> n = name_sf s) (complexMembers_sf X s))"

text \<open>
  The loop of \<open>sort\<close> in this variant: on a pass without progress it logs the remaining
  names and leaves the loop, and the function returns \<open>sorted\<close> alone.
\<close>

function sort_loop_sf ::
  "externals \<Rightarrow> schema_sf list \<Rightarrow> schema_sf list \<Rightarrow> string set \<Rightarrow> nat \<Rightarrow> schema_sf list"
where
  "sort_loop_sf X sorted_out unsorted sortedNames prevUnsortedLength =
     (if length unsorted > 0 then
        (let unsortable = filter (\<lambda>s. \<not> is_sortable_sf X sortedNames s) unsorted;
             sortable = filter (is_sortable_sf X sortedNames) unsorted;
             sortedSortable = array_sort (\<lambda>a b. localeCompare X (name_sf a) (name_sf b)) sortable;
             sorted_out' = sorted_out @ sortedSortable;
             sortedNames' = sortedNames \<union> set (map name_sf sortable)
         in if prevUnsortedLength = length unsortable
            then sorted_out'
            else sort_loop_sf X sorted_out' unsortable sortedNames' (length unsortable))
      else sorted_out)"
  by pat_completeness auto
termination
proof (relation "measure (\<lambda>(X, sorted_out, unsorted, sortedNames, prev).
          2 * length unsorted + (if prev = length unsorted then 0 else 1))")
  show "wf (measure (\<lambda>(X, sorted_out, unsorted, sortedNames, prev).
          2 * length unsorted + (if prev = length unsorted then 0 else 1)))"
    by simp
next
  fix X :: externals and sorted_out unsorted :: "schema_sf list"
    and sortedNames :: "string set" and prev :: nat
    and unsortable sortable sortedSortable sorted_out' :: "schema_sf list"
    and sortedNames' :: "string set"
  assume u: "unsortable = filter (\<lambda>s. \<not> is_sortable_sf X sortedNames s) unsorted"
    and ne: "prev \<noteq> length unsortable"
  have le: "length unsortable \<le> length unsorted"
    unfolding u by simp
  show "((X, sorted_out', unsortable, sortedNames', length unsortable),
         (X, sorted_out, unsorted, sortedNames, prev))
        \<in> measure (\<lambda>(X, sorted_out, unsorted, sortedNames, prev).
            2 * length unsorted + (if prev = length unsorted then 0 else 1))"
    using le ne by auto
qed

definition sort_sf :: "externals \<Rightarrow> schema_sf list \<Rightarrow> schema_sf list" where
  "sort_sf X iterable = sort_loop_sf X [] iterable {} (length iterable)"

definition shouldCoerce_sf :: "externals \<Rightarrow> member \<Rightarrow> schema_sf \<Rightarrow> bool" where
  "shouldCoerce_sf X member parent =
     (if kind member = Some Parameter then
        (case element_sf parent of
           Method_sf me \<Rightarrow>
             (case getHttpMethodByName X (method_name me) of
                None \<Rightarrow> False
              | Some httpParams \<Rightarrow>
                  (case find (\<lambda>p. camel X (http_name p) = camel X (member_name member)) httpParams of
                     None \<Rightarrow> False
                   | Some httpParam \<Rightarrow>
                       http_in httpParam = ''header'' \<or> http_in httpParam = ''query''
                       \<or> http_in httpParam = ''path''))
         | _ \<Rightarrow> False)
      else False)"

definition primitive_parts_sf :: "externals \<Rightarrow> member \<Rightarrow> schema_sf \<Rightarrow> string list" where
  "primitive_parts_sf X member parent =
     (let coerce = (if shouldCoerce_sf X member parent then ''.coerce'' else [])
      in if typeName member = ''string'' then
           (case const_value member of
              Some c \<Rightarrow> [z @ ''.literal('' @ quoted c @ '')'']
            | None \<Rightarrow>
                (case find_rule string_enum (rules member) of
                   Some vs \<Rightarrow> [z @ ''.enum('' @ join '', '' (map quoted vs) @ '')'']
                 | None \<Rightarrow>
                     [z @ ''.string()''] @ string_length_parts member
                     @ (case find_rule string_pattern (rules member) of
                          None \<Rightarrow> []
                        | Some p \<Rightarrow> [''regex(/'' @ p @ ''/)''])))
         else if typeName member \<in> {''number'', ''integer'', ''long'', ''float'', ''double''} then
           (case const_value member of
              Some c \<Rightarrow> [z @ ''.literal('' @ c @ '')'']
            | None \<Rightarrow>
                [z @ coerce @ ''.number()'']
                @ (if typeName member = ''integer'' \<or> typeName member = ''long''
                   then [''int()''] else [])
                @ number_rule_parts member)
         else if typeName member = ''boolean'' then
           (case const_value member of
              Some c \<Rightarrow> [z @ ''.literal('' @ c @ '')'']
            | None \<Rightarrow> [z @ coerce @ ''.boolean()''])
         else if typeName member \<in> {''date'', ''date-time''} then [z @ ''.coerce.date()'']
         else if typeName member \<in> {''binary'', ''untyped''} then [z @ ''.any()'']
         else [])"

definition buildMember_sf :: "externals \<Rightarrow> member \<Rightarrow> schema_sf \<Rightarrow> string list" where
  "buildMember_sf X member parent =
     (let schema =
            (if isPrimitive member then primitive_parts_sf X member parent
             else if camel X (typeName member) = camel X (name_sf parent)
               then [z @ ''.lazy(()=>'' @ pascal X (typeName member) @ ''Schema)'']
               else [pascal X (typeName member) @ ''Schema''])
            @ array_parts member
            @ (if \<not> required member then [''optional()''] else [])
      in [camel X (member_name member) @ '': '' @ join ''.'' schema @ '',''])"

text \<open>
  One turn of the \<open>for\<close> loop of \<open>body\<close>: the lines of one schema and the empty line
  after them.
\<close>

definition union_lines_sf :: "externals \<Rightarrow> schema_sf \<Rightarrow> bool \<Rightarrow> bool \<Rightarrow> member list \<Rightarrow> string list" where
  "union_lines_sf X s is_discriminated is_primitive ms =
     (let unionType = (if is_discriminated then ''discriminatedUnion'' else ''union'')
      in case ms of
           [m] \<Rightarrow>
             [''export const '' @ pascal X (name_sf s) @ ''Schema = ''
              @ pascal X (typeName m) @ ''Schema;'']
         | _ \<Rightarrow>
             [''export const '' @ pascal X (name_sf s) @ ''Schema = '' @ z @ ''.''
              @ unionType @ ''(['']
             @ (if is_primitive then [''// Primitive unions are not yet supported'']
                else map (\<lambda>member. pascal X (typeName member) @ ''Schema,'') ms)
             @ ['']);''])"

definition schema_lines_sf :: "externals \<Rightarrow> schema_sf \<Rightarrow> string list" where
  "schema_lines_sf X s =
     (case element_sf s of
        Type_sf ps \<Rightarrow>
          [''export const '' @ pascal X (name_sf s) @ ''Schema = '' @ z @ ''.object({'']
          @ concat (map (\<lambda>member. buildMember_sf X member s) ps)
          @ [''});'']
      | Method_sf me \<Rightarrow>
          [''export const '' @ pascal X (name_sf s) @ ''Schema = '' @ z @ ''.object({'']
          @ concat (map (\<lambda>member. buildMember_sf X member s) (parameters me))
          @ [''});'']
      | PrimitiveUnion_sf ms \<Rightarrow> union_lines_sf X s False True ms
      | ComplexUnion_sf ms \<Rightarrow> union_lines_sf X s False False ms
      | DiscriminatedUnion_sf ms \<Rightarrow> union_lines_sf X s True False ms
      | Enum_sf vs \<Rightarrow>
          [''export const '' @ pascal X (name_sf s) @ ''Schema = '' @ z @ ''.enum(['']
          @ map (\<lambda>v. ''  '' @ quoted v @ '','') vs
          @ ['']);''])
     @ ['''']"

definition body_sf :: "externals \<Rightarrow> schema_sf list \<Rightarrow> string list" where
  "body_sf X schemas = concat (map (schema_lines_sf X) (sort_sf X schemas))"

section \<open>Notions used to state the properties\<close>

text \<open>
  The loop of \<open>sort\<close> once more, with a counter of the executions of its body. Apart from
  the counter \<open>passes\<close> it is \<open>sort_loop\<close> word for word, and it returns the result of
  \<open>sort_loop\<close> beside the count.
\<close>

function sort_loop_counted ::
  "externals \<Rightarrow> schema list \<Rightarrow> schema list \<Rightarrow> string set \<Rightarrow> nat \<Rightarrow> nat
     \<Rightarrow> (schema list \<times> schema list) \<times> nat"
where
  "sort_loop_counted X sorted_out unsorted sortedNames prevUnsortedLength passes =
     (if length unsorted > 0 then
        (let unsortable = unsortable_of X sortedNames unsorted;
             sortable = sortable_of X sortedNames unsorted;
             sorted_out' = sorted_out @ sortedSortable X sortedNames unsorted;
             sortedNames' = sortedNames \<union> set (map name sortable)
         in if prevUnsortedLength = length unsortable
            then ((sorted_out', unsortable), passes + 1)
            else sort_loop_counted X sorted_out' unsortable sortedNames' (length unsortable)
                   (passes + 1))
      else ((sorted_out, []), passes))"
  by pat_completeness auto
termination
proof (relation "measure (\<lambda>(X, sorted_out, unsorted, sortedNames, prev, passes).
          2 * length unsorted + (if prev = length unsorted then 0 else 1))")
  show "wf (measure (\<lambda>(X, sorted_out, unsorted, sortedNames, prev, passes).
          2 * length unsorted + (if prev = length unsorted then 0 else 1)))"
    by simp
next
  fix X :: externals and sorted_out unsorted :: "schema list" and sortedNames :: "string set"
    and prev passes :: nat and unsortable sortable sorted_out' :: "schema list"
    and sortedNames' :: "string set"
  assume u: "unsortable = unsortable_of X sortedNames unsorted"
    and ne: "prev \<noteq> length unsortable"
  have le: "length unsortable \<le> length unsorted"
    unfolding u unsortable_of_def by simp
  show "((X, sorted_out', unsortable, sortedNames', length unsortable, passes + 1),
         (X, sorted_out, unsorted, sortedNames, prev, passes))
        \<in> measure (\<lambda>(X, sorted_out, unsorted, sortedNames, prev, passes).
            2 * length unsorted + (if prev = length unsorted then 0 else 1))"
    using le ne by auto
qed

definition sort_counted :: "externals \<Rightarrow> schema list \<Rightarrow> (schema list \<times> schema list) \<times> nat" where
  "sort_counted X iterable = sort_loop_counted X [] iterable {} (length iterable) 0"

text \<open>
  References, as the data model has them. The Members of an entity are the properties of
  a record type together with the key and the value of its map extension, the parameters
  of a method, and the variants of a union; an enum has none. An entity refers to another
  entity when one of its Members is not primitive and names that entity: the Name of an
  entity is the Pascal-case form of the type name by which Members refer to it. A
  reference of an entity to itself does not count.
\<close>

definition entity_members :: "schema \<Rightarrow> member list" where
  "entity_members s =
     (case element s of
        TypeEl t \<Rightarrow>
          properties t
          @ (case mapProperties t of None \<Rightarrow> [] | Some mp \<Rightarrow> [key mp, map_value mp])
      | MethodEl me \<Rightarrow> parameters me
      | UnionEl u \<Rightarrow> members u
      | EnumEl e \<Rightarrow> [])"

definition refers_to :: "externals \<Rightarrow> schema \<Rightarrow> schema \<Rightarrow> bool" where
  "refers_to X a b =
     (name b \<noteq> name a \<and>
      list_ex (\<lambda>m. \<not> isPrimitive m \<and> pascal X (typeName m) = name b) (entity_members a))"

text \<open>The reference graph of a worklist: its edges, as pairs of Names.\<close>

definition reference_edges :: "externals \<Rightarrow> schema list \<Rightarrow> (string \<times> string) list" where
  "reference_edges X es =
     concat (map (\<lambda>a. map (\<lambda>b. (name a, name b)) (filter (refers_to X a) es)) es)"

text \<open>
  The invariant of the data model: every Member that is not primitive names an entity of
  the worklist.
\<close>

definition references_resolve :: "externals \<Rightarrow> schema list \<Rightarrow> bool" where
  "references_resolve X es =
     list_all (\<lambda>a. list_all (\<lambda>m. isPrimitive m \<or> pascal X (typeName m) \<in> set (map name es))
                      (entity_members a)) es"

text \<open>
  Every entity of \<open>ordered\<close> stands after each entity of the worklist \<open>es\<close> that it
  refers to.
\<close>

definition placed_after_dependencies :: "externals \<Rightarrow> schema list \<Rightarrow> schema list \<Rightarrow> bool" where
  "placed_after_dependencies X es ordered =
     (\<forall>i < length ordered. \<forall>d \<in> set es.
        refers_to X (ordered ! i) d \<longrightarrow> d \<in> set (take i ordered))"

text \<open>
  The same notions on the names that \<open>sort\<close> extracts with \<open>complexMembers\<close>; the
  proofs go through them, and \<open>complexMembers\<close> is shown to extract exactly the
  references of the data model.
\<close>

definition dep_edges :: "externals \<Rightarrow> schema list \<Rightarrow> (string \<times> string) list" where
  "dep_edges X es =
     concat (map (\<lambda>e. map (\<lambda>n. (name e, n))
                         (filter (\<lambda>n. n \<noteq> name e) (complexMembers X e))) es)"

definition extracted_names_resolve :: "externals \<Rightarrow> schema list \<Rightarrow> bool" where
  "extracted_names_resolve X es =
     list_all (\<lambda>e. list_all (\<lambda>n. n \<in> set (map name es)) (complexMembers X e)) es"

definition names_before :: "externals \<Rightarrow> schema list \<Rightarrow> bool" where
  "names_before X ordered =
     (\<forall>i < length ordered. \<forall>n \<in> set (complexMembers X (ordered ! i)).
        n \<noteq> name (ordered ! i) \<longrightarrow> n \<in> name ` set (take i ordered))"




text \<open>The members that \<open>buildSchema\<close> hands to \<open>buildMember\<close>.\<close>

definition declared_members :: "schema \<Rightarrow> member list" where
  "declared_members s =
     (case element s of
        TypeEl t \<Rightarrow> properties t
      | MethodEl me \<Rightarrow> parameters me
      | _ \<Rightarrow> [])"

text \<open>
  The member is a parameter of a method, and the HTTP binding of that method places the
  parameter of the same (camel-cased) name in a header, the query or the path.
\<close>

definition bound_to_header_query_path :: "externals \<Rightarrow> member \<Rightarrow> schema \<Rightarrow> bool" where
  "bound_to_header_query_path X m parent =
     (kind m = Some Parameter \<and>
      (\<exists>me ps hp. element parent = MethodEl me
         \<and> getHttpMethodByName X (method_name me) = Some ps
         \<and> find (\<lambda>p. camel X (http_name p) = camel X (member_name m)) ps = Some hp
         \<and> http_in hp \<in> {''header'', ''query'', ''path''}))"

section \<open>A concrete instance of the collaborators, and example entities\<close>

text \<open>
  To run the definitions on examples, the collaborators are instantiated on ASCII
  identifiers. On an identifier that is one run of letters and digits, already in camel or
  Pascal case, the \<open>case\<close> package changes the case of the first letter only. On strings
  of ASCII letters, \<open>localeCompare\<close> orders by the letters regardless of case first, and
  among strings that differ in case only it puts the lowercase letter first.
\<close>

definition to_upper :: "char \<Rightarrow> char" where
  "to_upper c =
     (if CHR ''a'' \<le> c \<and> c \<le> CHR ''z'' then char_of (of_char c - (32::nat)) else c)"

definition to_lower :: "char \<Rightarrow> char" where
  "to_lower c =
     (if CHR ''A'' \<le> c \<and> c \<le> CHR ''Z'' then char_of (of_char c + (32::nat)) else c)"

definition pascal_word :: "string \<Rightarrow> string" where
  "pascal_word s = (case s of [] \<Rightarrow> [] | c # cs \<Rightarrow> to_upper c # cs)"

definition camel_word :: "string \<Rightarrow> string" where
  "camel_word s = (case s of [] \<Rightarrow> [] | c # cs \<Rightarrow> to_lower c # cs)"

definition localeCompare_letters :: "string \<Rightarrow> string \<Rightarrow> int" where
  "localeCompare_letters a b =
     (if map to_lower a < map to_lower b then - 1
      else if map to_lower b < map to_lower a then 1
      else if a = b then 0
      else if b < a then - 1
      else 1)"

definition ascii_externals :: "(string \<Rightarrow> http_parameter list option) \<Rightarrow> externals" where
  "ascii_externals http =
     \<lparr>pascal = pascal_word, camel = camel_word, localeCompare = localeCompare_letters,
      getHttpMethodByName = http\<rparr>"

definition no_http :: "string \<Rightarrow> http_parameter list option" where
  "no_http m = None"

definition primitive_member ::
  "member_kind option \<Rightarrow> string \<Rightarrow> string \<Rightarrow> rule list \<Rightarrow> member" where
  "primitive_member k nm ty rs =
     \<lparr>kind = k, member_name = nm, isPrimitive = True, typeName = ty, isArray = False,
      required = True, const_value = None, default_value = None, rules = rs\<rparr>"

definition reference_member :: "member_kind option \<Rightarrow> string \<Rightarrow> string \<Rightarrow> member" where
  "reference_member k nm ty =
     \<lparr>kind = k, member_name = nm, isPrimitive = False, typeName = ty, isArray = False,
      required = True, const_value = None, default_value = None, rules = []\<rparr>"

definition type_schema :: "string \<Rightarrow> member list \<Rightarrow> rule list \<Rightarrow> schema" where
  "type_schema nm ps rs =
     \<lparr>name = nm, element = TypeEl \<lparr>properties = ps, mapProperties = None, type_rules = rs\<rparr>\<rparr>"

definition method_schema :: "string \<Rightarrow> string \<Rightarrow> member list \<Rightarrow> schema" where
  "method_schema nm mn ps =
     \<lparr>name = nm, element = MethodEl \<lparr>method_name = mn, parameters = ps\<rparr>\<rparr>"

definition union_schema :: "string \<Rightarrow> member list \<Rightarrow> schema" where
  "union_schema nm ms =
     \<lparr>name = nm, element = UnionEl \<lparr>members = ms, discriminator = None\<rparr>\<rparr>"

definition enum_schema :: "string \<Rightarrow> string list \<Rightarrow> schema" where
  "enum_schema nm vs = \<lparr>name = nm, element = EnumEl \<lparr>enum_values = vs\<rparr>\<rparr>"

text \<open>Example worklists.\<close>

definition example_externals :: externals where
  "example_externals = ascii_externals no_http"

text \<open>
  A chain whose order of dependency is the reverse of the order of the Names: the map
  value of \<open>Catalog\<close> is an \<open>Item\<close>, and a variant of \<open>Item\<close> is a \<open>Status\<close>.
\<close>

definition status_entity :: schema where
  "status_entity = enum_schema ''Status'' [''open'', ''closed'']"

definition item_entity :: schema where
  "item_entity =
     union_schema ''Item'' [reference_member None [] ''status'', primitive_member None [] ''string'' []]"

definition catalog_entity :: schema where
  "catalog_entity =
     \<lparr>name = ''Catalog'',
      element = TypeEl
        \<lparr>properties = [],
         mapProperties = Some
           \<lparr>key = primitive_member (Some MapKey) [] ''string'' [],
            map_value = reference_member (Some MapValue) [] ''item'',
            requiredKeys = []\<rparr>,
         type_rules = []\<rparr>\<rparr>"

text \<open>Two unions that refer to each other, and the enum both refer to.\<close>

definition tree_union :: schema where
  "tree_union =
     union_schema ''Tree'' [reference_member None [] ''forest'', reference_member None [] ''leaf'']"

definition forest_union :: schema where
  "forest_union =
     union_schema ''Forest'' [reference_member None [] ''tree'', reference_member None [] ''leaf'']"

definition leaf_entity :: schema where
  "leaf_entity = enum_schema ''Leaf'' [''green'']"

definition shape_entity :: schema where
  "shape_entity =
     union_schema ''Shape'' [reference_member None [] ''group'', reference_member None [] ''color'']"

definition group_entity :: schema where
  "group_entity = type_schema ''Group'' [reference_member (Some Property) ''first'' ''shape''] []"

definition color_entity :: schema where
  "color_entity = enum_schema ''Color'' [''red'']"



definition node_entity :: schema where
  "node_entity = type_schema ''Node'' [reference_member (Some Property) ''edge'' ''edge''] []"

definition edge_entity :: schema where
  "edge_entity = type_schema ''Edge'' [reference_member (Some Property) ''target'' ''node''] []"

text \<open>A method whose binding puts \<open>limit\<close> in the query and \<open>payload\<close> in the body.\<close>

definition example_http :: "string \<Rightarrow> http_parameter list option" where
  "example_http m =
     (if m = ''listUsers''
      then Some [\<lparr>http_name = ''limit'', http_in = ''query''\<rparr>,
                 \<lparr>http_name = ''payload'', http_in = ''body''\<rparr>]
      else None)"

definition bound_externals :: externals where
  "bound_externals = ascii_externals example_http"

definition limit_parameter :: member where
  "limit_parameter = primitive_member (Some Parameter) ''limit'' ''integer'' []"

definition payload_parameter :: member where
  "payload_parameter = primitive_member (Some Parameter) ''payload'' ''integer'' []"

definition list_users_params :: schema where
  "list_users_params =
     method_schema ''ListUsersParams'' ''listUsers'' [limit_parameter, payload_parameter]"

definition name_property :: member where
  "name_property = primitive_member (Some Property) ''name'' ''string'' [StringMinLength 1]"

definition code_property :: member where
  "code_property =
     primitive_member (Some Property) ''code'' ''string'' [StringMinLength 3, StringMaxLength 3]"

definition account_entity :: schema where
  "account_entity = type_schema ''Account'' [name_property, code_property] []"

text \<open>A record type with key count rules and no map properties, and one with both.\<close>

definition bounded_entity :: schema where
  "bounded_entity = type_schema ''Bounded'' [] [ObjectMinProperties 1, ObjectMaxProperties 2]"

definition limits_entity :: schema where
  "limits_entity =
     \<lparr>name = ''Limits'',
      element = TypeEl
        \<lparr>properties = [],
         mapProperties = Some
           \<lparr>key = primitive_member (Some MapKey) [] ''string'' [],
            map_value = primitive_member (Some MapValue) [] ''number'' [],
            requiredKeys = []\<rparr>,
         type_rules = [ObjectMinProperties 1, ObjectMaxProperties 5]\<rparr>\<rparr>"

text \<open>Unions: two primitive variants, and a primitive variant beside a reference.\<close>

definition scalar_variants :: "member list" where
  "scalar_variants =
     [primitive_member None [] ''string'' [], primitive_member None [] ''number'' []]"

definition scalar_union :: schema where
  "scalar_union = union_schema ''Scalar'' scalar_variants"

definition scalar_union_sf :: schema_sf where
  "scalar_union_sf = \<lparr>name_sf = ''Scalar'', element_sf = PrimitiveUnion_sf scalar_variants\<rparr>"

definition pet_union :: schema where
  "pet_union =
     union_schema ''Pet'' [primitive_member None [] ''string'' [], reference_member None [] ''dog'']"

section \<open>Properties of the resolver\<close>

declare sort_loop.simps [simp del]

lemma sort_loop_unfold:
  "sort_loop X sorted_out unsorted sortedNames prev =
     (if unsorted = [] then (sorted_out, [])
      else if prev = length (unsortable_of X sortedNames unsorted)
           then (sorted_out @ sortedSortable X sortedNames unsorted,
                 unsortable_of X sortedNames unsorted)
           else sort_loop X (sorted_out @ sortedSortable X sortedNames unsorted)
                  (unsortable_of X sortedNames unsorted)
                  (sortedNames \<union> set (map name (sortable_of X sortedNames unsorted)))
                  (length (unsortable_of X sortedNames unsorted)))"
  by (subst sort_loop.simps) (simp add: Let_def)

lemma sort_loop_induct [case_names step]:
  assumes "\<And>X sorted_out unsorted sortedNames prev.
     (unsorted \<noteq> [] \<Longrightarrow> prev \<noteq> length (unsortable_of X sortedNames unsorted) \<Longrightarrow>
        P X (sorted_out @ sortedSortable X sortedNames unsorted)
          (unsortable_of X sortedNames unsorted)
          (sortedNames \<union> set (map name (sortable_of X sortedNames unsorted)))
          (length (unsortable_of X sortedNames unsorted)))
     \<Longrightarrow> P X sorted_out unsorted sortedNames prev"
  shows "P X sorted_out unsorted sortedNames prev"
proof (induction X sorted_out unsorted sortedNames prev rule: sort_loop.induct)
  case (1 X sorted_out unsorted sortedNames prev)
  show ?case
    by (rule assms) (rule "1.IH" [OF _ refl refl refl refl]; simp)
qed

lemma mset_insort_cmp: "mset (insort_cmp c x xs) = add_mset x (mset xs)"
  by (induction xs) auto

lemma mset_array_sort: "mset (array_sort c xs) = mset xs"
  unfolding array_sort_def by (induction xs) (auto simp: mset_insort_cmp)

lemma set_array_sort: "set (array_sort c xs) = set xs"
  using mset_array_sort [of c xs] by (metis set_mset_mset)

lemma mset_pass:
  "mset (sortedSortable X sortedNames unsorted) + mset (unsortable_of X sortedNames unsorted)
     = mset unsorted"
  unfolding sortedSortable_def sortable_of_def unsortable_of_def
  by (simp add: mset_array_sort)

lemma sort_loop_mset:
  "mset (fst (sort_loop X sorted_out unsorted sortedNames prev))
     + mset (snd (sort_loop X sorted_out unsorted sortedNames prev))
   = mset sorted_out + mset unsorted"
proof (induction X sorted_out unsorted sortedNames prev rule: sort_loop_induct)
  case (step X sorted_out unsorted sortedNames prev)
  show ?case
  proof (cases "unsorted = []")
    case True
    then show ?thesis by (subst (1 2) sort_loop_unfold) simp
  next
    case ne: False
    show ?thesis
    proof (cases "prev = length (unsortable_of X sortedNames unsorted)")
      case True
      then show ?thesis
        using ne mset_pass [of X sortedNames unsorted]
        by (subst (1 2) sort_loop_unfold) (simp add: add.assoc)
    next
      case False
      then show ?thesis
        using ne step [OF ne False] mset_pass [of X sortedNames unsorted]
        by (subst (1 2) sort_loop_unfold) (simp add: add.assoc)
    qed
  qed
qed

declare sort_loop_counted.simps [simp del]

lemma sort_loop_counted_unfold:
  "sort_loop_counted X sorted_out unsorted sortedNames prev passes =
     (if unsorted = [] then ((sorted_out, []), passes)
      else if prev = length (unsortable_of X sortedNames unsorted)
           then ((sorted_out @ sortedSortable X sortedNames unsorted,
                  unsortable_of X sortedNames unsorted), passes + 1)
           else sort_loop_counted X (sorted_out @ sortedSortable X sortedNames unsorted)
                  (unsortable_of X sortedNames unsorted)
                  (sortedNames \<union> set (map name (sortable_of X sortedNames unsorted)))
                  (length (unsortable_of X sortedNames unsorted))
                  (passes + 1))"
  by (subst sort_loop_counted.simps) (simp add: Let_def)

lemma length_unsortable_le: "length (unsortable_of X sortedNames unsorted) \<le> length unsorted"
  unfolding unsortable_of_def by simp

lemma sort_loop_counted_result:
  "fst (sort_loop_counted X sorted_out unsorted sortedNames prev passes)
     = sort_loop X sorted_out unsorted sortedNames prev"
proof (induction X sorted_out unsorted sortedNames prev arbitrary: passes
        rule: sort_loop_induct)
  case (step X sorted_out unsorted sortedNames prev)
  show ?case
  proof (cases "unsorted = []")
    case True
    then show ?thesis
      by (subst sort_loop_counted_unfold, subst sort_loop_unfold) simp
  next
    case ne: False
    show ?thesis
    proof (cases "prev = length (unsortable_of X sortedNames unsorted)")
      case True
      then show ?thesis using ne
        by (subst sort_loop_counted_unfold, subst sort_loop_unfold) simp
    next
      case False
      then show ?thesis using ne step [OF ne False, of "passes + 1"]
        by (subst sort_loop_counted_unfold, subst sort_loop_unfold) simp
    qed
  qed
qed

lemma sort_loop_counted_passes:
  "prev = length unsorted \<Longrightarrow>
     snd (sort_loop_counted X sorted_out unsorted sortedNames prev passes)
       \<le> passes + length unsorted"
proof (induction X sorted_out unsorted sortedNames prev arbitrary: passes
        rule: sort_loop_induct)
  case (step X sorted_out unsorted sortedNames prev)
  show ?case
  proof (cases "unsorted = []")
    case True
    then show ?thesis by (subst sort_loop_counted_unfold) simp
  next
    case ne: False
    show ?thesis
    proof (cases "prev = length (unsortable_of X sortedNames unsorted)")
      case True
      then show ?thesis using ne by (subst sort_loop_counted_unfold) (simp add: Suc_leI)
    next
      case False
      have lt: "length (unsortable_of X sortedNames unsorted) < length unsorted"
        using False step.prems length_unsortable_le [of X sortedNames unsorted] by simp
      have "snd (sort_loop_counted X (sorted_out @ sortedSortable X sortedNames unsorted)
                  (unsortable_of X sortedNames unsorted)
                  (sortedNames \<union> set (map name (sortable_of X sortedNames unsorted)))
                  (length (unsortable_of X sortedNames unsorted))
                  (passes + 1))
               \<le> (passes + 1) + length (unsortable_of X sortedNames unsorted)"
        by (rule step.IH [OF ne False refl])
      then show ?thesis
        using ne False lt by (subst sort_loop_counted_unfold) simp
    qed
  qed
qed

lemma pass_stall:
  assumes "length (unsortable_of X sortedNames unsorted) = length unsorted"
  shows "unsortable_of X sortedNames unsorted = unsorted"
    and "sortable_of X sortedNames unsorted = []"
proof -
  have all: "\<forall>s\<in>set unsorted. \<not> is_sortable X sortedNames s"
    using assms unfolding unsortable_of_def by (metis filter_id_conv length_filter_less less_irrefl_nat filter_True)
  show "unsortable_of X sortedNames unsorted = unsorted"
    unfolding unsortable_of_def using all by simp
  show "sortable_of X sortedNames unsorted = []"
    unfolding sortable_of_def using all by simp
qed

lemma dep_edges_iff:
  "(a, n) \<in> set (dep_edges X es) \<longleftrightarrow>
     (\<exists>e \<in> set es. a = name e \<and> n \<in> set (complexMembers X e) \<and> n \<noteq> name e)"
  unfolding dep_edges_def by auto

lemma is_sortable_iff:
  "is_sortable X sortedNames s \<longleftrightarrow>
     (\<forall>n \<in> set (complexMembers X s). n \<in> sortedNames \<or> n = name s)"
  unfolding is_sortable_def by (cases "complexMembers X s") (auto simp: list_all_iff)

lemma set_sortedSortable:
  "set (sortedSortable X sortedNames unsorted) = {s \<in> set unsorted. is_sortable X sortedNames s}"
  unfolding sortedSortable_def sortable_of_def by (simp add: set_array_sort)

lemma set_sortable_of:
  "set (sortable_of X sortedNames unsorted) = {s \<in> set unsorted. is_sortable X sortedNames s}"
  unfolding sortable_of_def by simp

lemma set_unsortable_of:
  "set (unsortable_of X sortedNames unsorted) = {s \<in> set unsorted. \<not> is_sortable X sortedNames s}"
  unfolding unsortable_of_def by simp

lemma names_before_append:
  assumes "names_before X xs"
    and "\<forall>e \<in> set ys. \<forall>n \<in> set (complexMembers X e). n \<noteq> name e \<longrightarrow> n \<in> name ` set xs"
  shows "names_before X (xs @ ys)"
  unfolding names_before_def
proof (intro allI impI ballI)
  fix i n
  assume i: "i < length (xs @ ys)" and n: "n \<in> set (complexMembers X ((xs @ ys) ! i))"
    and ne: "n \<noteq> name ((xs @ ys) ! i)"
  show "n \<in> name ` set (take i (xs @ ys))"
  proof (cases "i < length xs")
    case True
    then show ?thesis
      using assms(1) n ne unfolding names_before_def by (auto simp: nth_append)
  next
    case False
    then have "(xs @ ys) ! i = ys ! (i - length xs)" "i - length xs < length ys"
      using i by (auto simp: nth_append)
    then have "n \<in> name ` set xs"
      using assms(2) n ne by (metis nth_mem)
    then show ?thesis using False by auto
  qed
qed

lemma sort_loop_names_before:
  assumes "sortedNames = name ` set sorted_out" "names_before X sorted_out"
  shows "names_before X (fst (sort_loop X sorted_out unsorted sortedNames prev))"
  using assms
proof (induction X sorted_out unsorted sortedNames prev rule: sort_loop_induct)
  case (step X sorted_out unsorted sortedNames prev)
  have nb: "names_before X (sorted_out @ sortedSortable X sortedNames unsorted)"
  proof (rule names_before_append [OF step.prems(2)], intro ballI impI)
    fix e n
    assume "e \<in> set (sortedSortable X sortedNames unsorted)"
      "n \<in> set (complexMembers X e)" "n \<noteq> name e"
    then show "n \<in> name ` set sorted_out"
      using step.prems(1) by (auto simp: set_sortedSortable is_sortable_iff)
  qed
  have nm: "sortedNames \<union> set (map name (sortable_of X sortedNames unsorted))
            = name ` set (sorted_out @ sortedSortable X sortedNames unsorted)"
    using step.prems(1) by (auto simp: set_sortedSortable set_sortable_of)
  show ?case
  proof (cases "unsorted = []")
    case True
    then show ?thesis using step.prems by (subst sort_loop_unfold) simp
  next
    case ne: False
    show ?thesis
    proof (cases "prev = length (unsortable_of X sortedNames unsorted)")
      case True
      then show ?thesis using ne nb by (subst sort_loop_unfold) simp
    next
      case False
      show ?thesis
        using ne False step.IH [OF ne False nm nb] by (subst sort_loop_unfold) simp
    qed
  qed
qed

lemma progress:
  assumes ac: "acyclic (set (dep_edges X es))"
    and rr: "extracted_names_resolve X es"
    and sub: "set unsorted \<subseteq> set es"
    and cov: "\<forall>e \<in> set es. name e \<in> sortedNames \<or> name e \<in> name ` set unsorted"
    and ne: "unsorted \<noteq> []"
  shows "\<exists>e \<in> set unsorted. is_sortable X sortedNames e"
proof -
  let ?G = "set (dep_edges X es)"
  have "wf (?G\<inverse>)"
    using ac by (simp add: finite_acyclic_wf)
  moreover have "name (hd unsorted) \<in> name ` set unsorted" using ne by simp
  ultimately obtain z where z: "z \<in> name ` set unsorted"
    and min: "\<And>y. (y, z) \<in> ?G\<inverse> \<Longrightarrow> y \<notin> name ` set unsorted"
    by (rule wfE_min) blast
  from z obtain e where e: "e \<in> set unsorted" "z = name e" by auto
  have "is_sortable X sortedNames e"
    unfolding is_sortable_iff
  proof (intro ballI)
    fix n assume n: "n \<in> set (complexMembers X e)"
    show "n \<in> sortedNames \<or> n = name e"
    proof (cases "n = name e")
      case True then show ?thesis by simp
    next
      case False
      have "e \<in> set es" using e sub by auto
      then have "(name e, n) \<in> ?G" using n False by (auto simp: dep_edges_iff)
      then have "n \<notin> name ` set unsorted" using min [of n] e(2) by simp
      moreover have "n \<in> name ` set es"
        using rr \<open>e \<in> set es\<close> n unfolding extracted_names_resolve_def by (auto simp: list_all_iff)
      ultimately show ?thesis using cov by auto
    qed
  qed
  then show ?thesis using e by blast
qed

lemma sort_loop_no_circular:
  assumes "acyclic (set (dep_edges X es))" "extracted_names_resolve X es"
    and "set unsorted \<subseteq> set es"
    and "\<forall>e \<in> set es. name e \<in> sortedNames \<or> name e \<in> name ` set unsorted"
    and "prev = length unsorted"
  shows "snd (sort_loop X sorted_out unsorted sortedNames prev) = []"
  using assms
proof (induction X sorted_out unsorted sortedNames prev rule: sort_loop_induct)
  case (step X sorted_out unsorted sortedNames prev)
  show ?case
  proof (cases "unsorted = []")
    case True
    then show ?thesis by (subst sort_loop_unfold) simp
  next
    case ne: False
    obtain e where e: "e \<in> set unsorted" "is_sortable X sortedNames e"
      using progress [OF step.prems(1-4) ne] by blast
    have lt: "length (unsortable_of X sortedNames unsorted) < length unsorted"
      unfolding unsortable_of_def using e by (intro length_filter_less [of e]) auto
    then have neq: "prev \<noteq> length (unsortable_of X sortedNames unsorted)"
      using step.prems(5) by simp
    have sub': "set (unsortable_of X sortedNames unsorted) \<subseteq> set es"
      using step.prems(3) by (auto simp: set_unsortable_of)
    have cov': "\<forall>e \<in> set es. name e \<in> sortedNames \<union> set (map name (sortable_of X sortedNames unsorted))
                  \<or> name e \<in> name ` set (unsortable_of X sortedNames unsorted)"
      using step.prems(4) by (auto simp: set_unsortable_of set_sortable_of)
    show ?thesis
      using ne neq step.IH [OF ne neq step.prems(1,2) sub' cov' refl]
      by (subst sort_loop_unfold) simp
  qed
qed

lemma sort_loop_circular_pair:
  assumes "distinct (map name unsorted)"
    and "A \<in> set unsorted" "B \<in> set unsorted"
    and "name B \<in> set (complexMembers X A)" "name A \<in> set (complexMembers X B)"
    and "name A \<noteq> name B"
    and "name A \<notin> sortedNames" "name B \<notin> sortedNames"
  shows "A \<in> set (snd (sort_loop X sorted_out unsorted sortedNames prev))
       \<and> B \<in> set (snd (sort_loop X sorted_out unsorted sortedNames prev))"
  using assms
proof (induction X sorted_out unsorted sortedNames prev rule: sort_loop_induct)
  case (step X sorted_out unsorted sortedNames prev)
  have ne: "unsorted \<noteq> []" using step.prems(2) by auto
  have nA: "\<not> is_sortable X sortedNames A"
    using step.prems(4,6,8) unfolding is_sortable_iff by metis
  have nB: "\<not> is_sortable X sortedNames B"
    using step.prems(5,6,7) unfolding is_sortable_iff by metis
  have inA: "A \<in> set (unsortable_of X sortedNames unsorted)"
    using nA step.prems(2) by (simp add: set_unsortable_of)
  have inB: "B \<in> set (unsortable_of X sortedNames unsorted)"
    using nB step.prems(3) by (simp add: set_unsortable_of)
  show ?case
  proof (cases "prev = length (unsortable_of X sortedNames unsorted)")
    case True
    then show ?thesis using ne inA inB by (subst (1 2) sort_loop_unfold) simp
  next
    case False
    have d: "distinct (map name (unsortable_of X sortedNames unsorted))"
      using step.prems(1) unfolding unsortable_of_def by (simp add: distinct_map_filter)
    have inj: "inj_on name (set unsorted)"
      using step.prems(1) by (simp add: distinct_map)
    have a: "name A \<notin> sortedNames \<union> set (map name (sortable_of X sortedNames unsorted))"
    proof
      assume "name A \<in> sortedNames \<union> set (map name (sortable_of X sortedNames unsorted))"
      then obtain e where "e \<in> set unsorted" "is_sortable X sortedNames e" "name e = name A"
        using step.prems(7) by (auto simp: set_sortable_of)
      then show False using inj step.prems(2) nA by (auto dest: inj_onD)
    qed
    have b: "name B \<notin> sortedNames \<union> set (map name (sortable_of X sortedNames unsorted))"
    proof
      assume "name B \<in> sortedNames \<union> set (map name (sortable_of X sortedNames unsorted))"
      then obtain e where "e \<in> set unsorted" "is_sortable X sortedNames e" "name e = name B"
        using step.prems(8) by (auto simp: set_sortable_of)
      then show False using inj step.prems(3) nB by (auto dest: inj_onD)
    qed
    show ?thesis
      using ne False step.IH [OF ne False d inA inB step.prems(4,5,6) a b]
      by (subst (1 2) sort_loop_unfold) simp
  qed
qed

lemma complexMembers_references:
  "set (complexMembers X s)
     = {n. \<exists>m \<in> set (entity_members s). \<not> isPrimitive m \<and> pascal X (typeName m) = n}"
proof (cases "element s")
  case (TypeEl t)
  show ?thesis
  proof (cases "mapProperties t")
    case None
    then show ?thesis
      using TypeEl unfolding complexMembers_def entity_members_def by (auto simp: Let_def)
  next
    case (Some mp)
    then show ?thesis
      using TypeEl unfolding complexMembers_def entity_members_def by (auto simp: Let_def)
  qed
next
  case (MethodEl me)
  then show ?thesis unfolding complexMembers_def entity_members_def by auto
next
  case (UnionEl u)
  then show ?thesis unfolding complexMembers_def entity_members_def by auto
next
  case (EnumEl e)
  then show ?thesis unfolding complexMembers_def entity_members_def by auto
qed

lemma refers_to_iff:
  "refers_to X a b \<longleftrightarrow> name b \<noteq> name a \<and> name b \<in> set (complexMembers X a)"
  unfolding refers_to_def complexMembers_references list_ex_iff by auto

lemma reference_edges_iff:
  "(x, y) \<in> set (reference_edges X es) \<longleftrightarrow>
     (\<exists>a \<in> set es. \<exists>b \<in> set es. x = name a \<and> y = name b \<and> refers_to X a b)"
  unfolding reference_edges_def by auto

lemma references_resolve_extracted:
  assumes "references_resolve X es"
  shows "extracted_names_resolve X es"
  unfolding extracted_names_resolve_def list_all_iff
proof (intro ballI)
  fix e n
  assume e: "e \<in> set es" and n: "n \<in> set (complexMembers X e)"
  then obtain m where m: "m \<in> set (entity_members e)" "\<not> isPrimitive m"
    "pascal X (typeName m) = n"
    unfolding complexMembers_references by auto
  then show "n \<in> set (map name es)"
    using assms e unfolding references_resolve_def list_all_iff by auto
qed

lemma dep_edges_reference_edges:
  assumes "references_resolve X es"
  shows "set (dep_edges X es) \<subseteq> set (reference_edges X es)"
proof
  fix p assume p: "p \<in> set (dep_edges X es)"
  obtain x n where xn: "p = (x, n)" by (cases p)
  with p obtain e where e: "e \<in> set es" "x = name e" "n \<in> set (complexMembers X e)"
    "n \<noteq> name e"
    by (auto simp: dep_edges_iff)
  have "n \<in> set (map name es)"
    using references_resolve_extracted [OF assms] e(1,3)
    unfolding extracted_names_resolve_def list_all_iff by auto
  then obtain b where b: "b \<in> set es" "n = name b" by auto
  then have "refers_to X e b" using e(3,4) unfolding refers_to_iff by simp
  then show "p \<in> set (reference_edges X es)"
    unfolding xn reference_edges_iff using e(1,2) b by blast
qed

lemma names_before_placed:
  assumes nb: "names_before X ordered" and ms: "mset ordered = mset es"
    and dn: "distinct (map name es)"
  shows "placed_after_dependencies X es ordered"
  unfolding placed_after_dependencies_def
proof (intro allI impI ballI)
  fix i d
  assume i: "i < length ordered" and d: "d \<in> set es"
    and h: "refers_to X (ordered ! i) d"
  then have "name d \<in> set (complexMembers X (ordered ! i))" "name d \<noteq> name (ordered ! i)"
    unfolding refers_to_iff by simp_all
  then have "name d \<in> name ` set (take i ordered)"
    using nb i unfolding names_before_def by blast
  then obtain d' where d': "d' \<in> set (take i ordered)" "name d' = name d" by auto
  have "set ordered = set es" using ms by (metis set_mset_mset)
  then have "d' \<in> set es" using d'(1) by (auto dest: in_set_takeD)
  moreover have "inj_on name (set es)" using dn by (simp add: distinct_map)
  ultimately have "d' = d" using d d'(2) by (auto dest: inj_onD)
  then show "d \<in> set (take i ordered)" using d'(1) by simp
qed

text \<open>
  C1. When the Names of the worklist are distinct, every Member that is not primitive
  names an entity of the worklist, and the reference graph of the data model
  (self-references apart) has no cycle, \<open>sort\<close> returns an empty circular list, and its
  sorted list holds every entity of the worklist exactly once, each one after all the
  entities it refers to.
\<close>

theorem sort_acyclic:
  assumes "distinct (map name es)" "references_resolve X es"
    and "acyclic (set (reference_edges X es))"
  shows "snd (sort X es) = [] \<and> mset (fst (sort X es)) = mset es
       \<and> distinct (fst (sort X es)) \<and> placed_after_dependencies X es (fst (sort X es))"
proof -
  have ac: "acyclic (set (dep_edges X es))"
    using assms(3) dep_edges_reference_edges [OF assms(2)] by (rule acyclic_subset)
  have rr: "extracted_names_resolve X es"
    by (rule references_resolve_extracted [OF assms(2)])
  have c: "snd (sort X es) = []"
    unfolding sort_def
    by (rule sort_loop_no_circular [OF ac rr]) auto
  have m: "mset (fst (sort X es)) = mset es"
    using sort_loop_mset [of X "[]" es "{}" "length es"] c unfolding sort_def by simp
  have "distinct es" using assms(1) by (simp add: distinct_map)
  then have d: "distinct (fst (sort X es))"
    using m mset_eq_imp_distinct_iff by blast
  have nb: "names_before X (fst (sort X es))"
    unfolding sort_def by (rule sort_loop_names_before) (simp_all add: names_before_def)
  show ?thesis using c m d names_before_placed [OF nb m assms(1)] by simp
qed

theorem sort_acyclic_witness:
  "distinct (map name [catalog_entity, item_entity, status_entity])
   \<and> references_resolve example_externals [catalog_entity, item_entity, status_entity]
   \<and> reference_edges example_externals [catalog_entity, item_entity, status_entity]
       = [(''Catalog'', ''Item''), (''Item'', ''Status'')]
   \<and> acyclic (set (reference_edges example_externals
                      [catalog_entity, item_entity, status_entity]))
   \<and> sort example_externals [catalog_entity, item_entity, status_entity]
       = ([status_entity, item_entity, catalog_entity], [])
   \<and> snd (sort example_externals [catalog_entity, item_entity, status_entity]) = []
   \<and> mset (fst (sort example_externals [catalog_entity, item_entity, status_entity]))
       = mset [catalog_entity, item_entity, status_entity]
   \<and> distinct (fst (sort example_externals [catalog_entity, item_entity, status_entity]))
   \<and> placed_after_dependencies example_externals [catalog_entity, item_entity, status_entity]
        (fst (sort example_externals [catalog_entity, item_entity, status_entity]))"
proof -
  have h1: "distinct (map name [catalog_entity, item_entity, status_entity])"
    by code_simp
  have h2: "references_resolve example_externals [catalog_entity, item_entity, status_entity]"
    by code_simp
  have e: "reference_edges example_externals [catalog_entity, item_entity, status_entity]
       = [(''Catalog'', ''Item''), (''Item'', ''Status'')]"
    by code_simp
  have h3: "acyclic (set (reference_edges example_externals
                      [catalog_entity, item_entity, status_entity]))"
    unfolding e by (simp add: wf_acyclic rtrancl_insert)
  have v: "sort example_externals [catalog_entity, item_entity, status_entity]
       = ([status_entity, item_entity, catalog_entity], [])"
    by code_simp
  show ?thesis
    using sort_acyclic [OF h1 h2 h3] h1 h2 h3 e v by simp
qed

text \<open>
  C10. For every worklist, cyclic or not, the sorted list and the circular list of
  \<open>sort\<close> together hold exactly the entities of the worklist, as often as the worklist
  does; so when the worklist has no entity twice, no entity stands twice in the two lists.
\<close>

theorem sort_partitions_worklist:
  "mset (fst (sort X es)) + mset (snd (sort X es)) = mset es
   \<and> (distinct es \<longrightarrow> distinct (fst (sort X es) @ snd (sort X es)))"
proof -
  have m: "mset (fst (sort X es) @ snd (sort X es)) = mset es"
    using sort_loop_mset [of X "[]" es "{}" "length es"] unfolding sort_def by simp
  then have "distinct es \<longrightarrow> distinct (fst (sort X es) @ snd (sort X es))"
    using mset_eq_imp_distinct_iff by blast
  then show ?thesis using m by simp
qed

theorem sort_partitions_worklist_witness:
  "distinct [shape_entity, group_entity, color_entity]
   \<and> mset (fst (sort example_externals [shape_entity, group_entity, color_entity]))
       + mset (snd (sort example_externals [shape_entity, group_entity, color_entity]))
     = mset [shape_entity, group_entity, color_entity]
   \<and> distinct (fst (sort example_externals [shape_entity, group_entity, color_entity])
               @ snd (sort example_externals [shape_entity, group_entity, color_entity]))"
proof -
  have d: "distinct [shape_entity, group_entity, color_entity]"
    by code_simp
  show ?thesis
    using sort_partitions_worklist [of example_externals "[shape_entity, group_entity, color_entity]"] d
    by simp
qed

lemma example_shape_group_cycle:
  "sort example_externals [shape_entity, group_entity, color_entity]
     = ([color_entity], [shape_entity, group_entity])"
  by code_simp

text \<open>
  C4. \<open>sort\<close> is a total function: its loop is defined with a termination proof. Counting
  the executions of the body of the loop changes nothing in what the loop returns, and on a
  worklist of \<open>n\<close> entities the body runs at most \<open>n\<close> times. A pass of the loop over a
  pending list that is not empty either makes no entity ready, and then the loop returns
  at once what it had sorted, with the whole pending list as circular; or it leaves
  strictly fewer entities pending, and the loop goes on with them.
\<close>

theorem sort_returns_within_n_passes:
  "fst (sort_counted X es) = sort X es
   \<and> snd (sort_counted X es) \<le> length es
   \<and> (\<forall>sorted_out unsorted sortedNames.
        unsorted \<noteq> [] \<longrightarrow>
          (length (unsortable_of X sortedNames unsorted) = length unsorted
           \<and> sort_loop X sorted_out unsorted sortedNames (length unsorted)
               = (sorted_out, unsorted))
          \<or> (length (unsortable_of X sortedNames unsorted) < length unsorted
             \<and> sort_loop X sorted_out unsorted sortedNames (length unsorted)
                 = sort_loop X (sorted_out @ sortedSortable X sortedNames unsorted)
                     (unsortable_of X sortedNames unsorted)
                     (sortedNames \<union> set (map name (sortable_of X sortedNames unsorted)))
                     (length (unsortable_of X sortedNames unsorted))))"
proof -
  have r: "fst (sort_counted X es) = sort X es"
    unfolding sort_counted_def sort_def by (rule sort_loop_counted_result)
  have a: "snd (sort_counted X es) \<le> length es"
    using sort_loop_counted_passes [of "length es" es X "[]" "{}" 0]
    unfolding sort_counted_def by simp
  have b: "(length (unsortable_of X sortedNames unsorted) = length unsorted
           \<and> sort_loop X sorted_out unsorted sortedNames (length unsorted)
               = (sorted_out, unsorted))
          \<or> (length (unsortable_of X sortedNames unsorted) < length unsorted
             \<and> sort_loop X sorted_out unsorted sortedNames (length unsorted)
                 = sort_loop X (sorted_out @ sortedSortable X sortedNames unsorted)
                     (unsortable_of X sortedNames unsorted)
                     (sortedNames \<union> set (map name (sortable_of X sortedNames unsorted)))
                     (length (unsortable_of X sortedNames unsorted)))"
    if ne: "unsorted \<noteq> []" for sorted_out unsorted sortedNames
  proof (cases "length (unsortable_of X sortedNames unsorted) < length unsorted")
    case True
    then have "length unsorted \<noteq> length (unsortable_of X sortedNames unsorted)" by simp
    then have "sort_loop X sorted_out unsorted sortedNames (length unsorted)
                 = sort_loop X (sorted_out @ sortedSortable X sortedNames unsorted)
                     (unsortable_of X sortedNames unsorted)
                     (sortedNames \<union> set (map name (sortable_of X sortedNames unsorted)))
                     (length (unsortable_of X sortedNames unsorted))"
      using ne by (subst sort_loop_unfold) simp
    then show ?thesis using True by simp
  next
    case False
    then have eq: "length (unsortable_of X sortedNames unsorted) = length unsorted"
      using length_unsortable_le [of X sortedNames unsorted] by simp
    have "sortedSortable X sortedNames unsorted = []"
      unfolding sortedSortable_def using pass_stall(2) [OF eq] by (simp add: array_sort_def)
    then have "sort_loop X sorted_out unsorted sortedNames (length unsorted)
                 = (sorted_out, unsorted)"
      using ne eq pass_stall(1) [OF eq] by (subst sort_loop_unfold) simp
    then show ?thesis using eq by simp
  qed
  show ?thesis using r a b by blast
qed

theorem sort_returns_within_n_passes_witness:
  "sort_counted example_externals [catalog_entity, item_entity, status_entity]
     = (([status_entity, item_entity, catalog_entity], []), 3)
   \<and> fst (sort_counted example_externals [catalog_entity, item_entity, status_entity])
       = sort example_externals [catalog_entity, item_entity, status_entity]
   \<and> snd (sort_counted example_externals [catalog_entity, item_entity, status_entity])
       \<le> length [catalog_entity, item_entity, status_entity]
   \<and> [shape_entity, group_entity] \<noteq> []
   \<and> length (unsortable_of example_externals {''Color''} [shape_entity, group_entity])
       = length [shape_entity, group_entity]
   \<and> sort_loop example_externals [color_entity] [shape_entity, group_entity] {''Color''}
        (length [shape_entity, group_entity])
       = ([color_entity], [shape_entity, group_entity])"
proof -
  note t = sort_returns_within_n_passes
             [of example_externals "[catalog_entity, item_entity, status_entity]"]
  have v: "sort_counted example_externals [catalog_entity, item_entity, status_entity]
     = (([status_entity, item_entity, catalog_entity], []), 3)"
    by code_simp
  have ne: "[shape_entity, group_entity] \<noteq> []" by simp
  have st: "length (unsortable_of example_externals {''Color''} [shape_entity, group_entity])
       = length [shape_entity, group_entity]"
    by code_simp
  note r = t [THEN conjunct1]
  note a = t [THEN conjunct2, THEN conjunct1]
  note b = t [THEN conjunct2, THEN conjunct2, rule_format, OF ne,
              of "{''Color''}" "[color_entity]"]
  from b st have s: "sort_loop example_externals [color_entity] [shape_entity, group_entity]
        {''Color''} (length [shape_entity, group_entity])
       = ([color_entity], [shape_entity, group_entity])"
    by linarith
  show ?thesis
    by (intro conjI) (fact v r a ne st s)+
qed

section \<open>The order within a pass\<close>







lemma sort_loop_prefix:
  "\<exists>rest. fst (sort_loop X sorted_out unsorted sortedNames prev) = sorted_out @ rest"
proof (induction X sorted_out unsorted sortedNames prev rule: sort_loop_induct)
  case (step X sorted_out unsorted sortedNames prev)
  show ?case
  proof (cases "unsorted = []")
    case True
    then show ?thesis by (subst sort_loop_unfold) simp
  next
    case ne: False
    show ?thesis
    proof (cases "prev = length (unsortable_of X sortedNames unsorted)")
      case True
      then show ?thesis using ne by (subst sort_loop_unfold) simp
    next
      case False
      then show ?thesis using ne step [OF ne False] by (subst sort_loop_unfold) auto
    qed
  qed
qed

lemma sort_loop_layer:
  assumes "unsorted \<noteq> []"
  shows "\<exists>rest. fst (sort_loop X sorted_out unsorted sortedNames prev)
           = sorted_out @ sortedSortable X sortedNames unsorted @ rest"
proof (cases "prev = length (unsortable_of X sortedNames unsorted)")
  case True
  then show ?thesis using assms by (subst sort_loop_unfold) simp
next
  case False
  obtain rest where "fst (sort_loop X (sorted_out @ sortedSortable X sortedNames unsorted)
                  (unsortable_of X sortedNames unsorted)
                  (sortedNames \<union> set (map name (sortable_of X sortedNames unsorted)))
                  (length (unsortable_of X sortedNames unsorted)))
        = (sorted_out @ sortedSortable X sortedNames unsorted) @ rest"
    using sort_loop_prefix by blast
  then show ?thesis using assms False by (subst sort_loop_unfold) simp
qed









section \<open>Circular entities and lazy references\<close>

lemma concat_map_segment:
  assumes "x \<in> set xs"
  shows "\<exists>pre post. concat (map f xs) = pre @ f x @ post"
proof -
  obtain ys zs where "xs = ys @ x # zs" using assms by (auto dest: split_list)
  then have "concat (map f xs) = concat (map f ys) @ f x @ concat (map f zs)" by simp
  then show ?thesis by blast
qed

lemma lazy_member_parts:
  assumes "\<not> isPrimitive m" "B \<in> set circ" "pascal X (typeName m) = name B"
    and "camel X (pascal X (typeName m)) = camel X (typeName m)"
  shows "schema_parts X m P \<lparr>preventOptional = False, circular = Some circ\<rparr>
       = (z @ ''.lazy(()=>'' @ pascal X (typeName m) @ ''Schema)'')
         # array_parts m
         @ optional_parts m \<lparr>preventOptional = False, circular = Some circ\<rparr>"
proof -
  have "list_ex (\<lambda>s. camel X (name s) = camel X (typeName m)) circ"
    unfolding list_ex_iff using assms(2,3,4) by (intro bexI [of _ B]) simp_all
  then have "is_lazy X m P \<lparr>preventOptional = False, circular = Some circ\<rparr>"
    unfolding is_lazy_def by simp
  then show ?thesis using assms(1) unfolding schema_parts_def reference_parts_def by simp
qed

lemma declared_member_emitted:
  assumes "m \<in> set (declared_members P)"
  shows "set (buildMember X m P circ) \<subseteq> set (buildSchema X P circ)"
proof (cases "element P")
  case (TypeEl t)
  then have m: "m \<in> set (properties t)" using assms unfolding declared_members_def by simp
  then have ne: "properties t \<noteq> []" by auto
  have "set (buildMember X m P circ) \<subseteq> set (type_structure X P t circ)"
    unfolding type_structure_def using m ne by (auto simp: Let_def)
  then show ?thesis unfolding buildSchema_def using TypeEl by auto
next
  case (MethodEl me)
  then have m: "m \<in> set (parameters me)" using assms unfolding declared_members_def by simp
  then show ?thesis unfolding buildSchema_def using MethodEl by auto
next
  case (UnionEl u)
  then show ?thesis using assms unfolding declared_members_def by simp
next
  case (EnumEl e)
  then show ?thesis using assms unfolding declared_members_def by simp
qed

lemma circular_entity_in_body:
  assumes "P \<in> set (snd (sort X es))"
  shows "\<exists>pre post. body X es = pre @ buildSchema X P (snd (sort X es)) @ [''''] @ post"
proof -
  obtain pre post where
    "concat (map (\<lambda>s. buildSchema X s (snd (sort X es)) @ ['''']) (snd (sort X es)))
       = pre @ (buildSchema X P (snd (sort X es)) @ ['''']) @ post"
    using concat_map_segment [OF assms, of "\<lambda>s. buildSchema X s (snd (sort X es)) @ ['''']"]
    by blast
  then have "body X es
      = (concat (map (\<lambda>s. buildSchema X s [] @ ['''']) (fst (sort X es))) @ pre)
        @ buildSchema X P (snd (sort X es)) @ [''''] @ post"
    unfolding body_def by (simp add: case_prod_beta)
  then show ?thesis by blast
qed

text \<open>
  What the record type and method cases do with a cycle. In a worklist with distinct
  Names, two entities \<open>A\<close> and \<open>B\<close> that refer to each other both end in the circular
  list, and \<open>body\<close> emits each of them with that list. Where the reference to the other
  entity is a declared property of a record type or a parameter of a method, and the case
  converters agree on the type name (\<open>camel (pascal t) = camel t\<close>), the line of that
  member starts with a lazy reference.
\<close>

lemma circular_pair_lazy_members:
  assumes "distinct (map name es)" "A \<in> set es" "B \<in> set es"
    and "refers_to X A B" "refers_to X B A"
  shows "A \<in> set (snd (sort X es)) \<and> B \<in> set (snd (sort X es))
       \<and> (\<forall>P \<in> {A, B}.
            (\<exists>pre post. body X es = pre @ buildSchema X P (snd (sort X es)) @ [''''] @ post)
            \<and> (\<forall>m \<in> set (declared_members P).
                 \<not> isPrimitive m \<and> pascal X (typeName m) \<in> {name A, name B}
                 \<and> camel X (pascal X (typeName m)) = camel X (typeName m) \<longrightarrow>
                   buildMember X m P (snd (sort X es))
                     = [camel X (member_name m) @ '': ''
                        @ join ''.''
                            ((z @ ''.lazy(()=>'' @ pascal X (typeName m) @ ''Schema)'')
                             # array_parts m
                             @ optional_parts m
                                 \<lparr>preventOptional = False,
                                  circular = Some (snd (sort X es))\<rparr>)
                        @ '','']
                   \<and> set (buildMember X m P (snd (sort X es)))
                       \<subseteq> set (buildSchema X P (snd (sort X es)))))"
proof -
  have h4: "name B \<in> set (complexMembers X A)" and h5: "name A \<in> set (complexMembers X B)"
    and h6: "name A \<noteq> name B"
    using assms(4,5) unfolding refers_to_iff by simp_all
  have ab: "A \<in> set (snd (sort X es)) \<and> B \<in> set (snd (sort X es))"
    unfolding sort_def by (rule sort_loop_circular_pair [OF assms(1-3) h4 h5 h6]) simp_all
  have mem: "buildMember X m P (snd (sort X es))
                     = [camel X (member_name m) @ '': ''
                        @ join ''.''
                            ((z @ ''.lazy(()=>'' @ pascal X (typeName m) @ ''Schema)'')
                             # array_parts m
                             @ optional_parts m
                                 \<lparr>preventOptional = False,
                                  circular = Some (snd (sort X es))\<rparr>)
                        @ '','']"
    if np: "\<not> isPrimitive m" and pn: "pascal X (typeName m) \<in> {name A, name B}"
      and cl: "camel X (pascal X (typeName m)) = camel X (typeName m)" for m P
  proof -
    obtain C where C: "C \<in> set (snd (sort X es))" "pascal X (typeName m) = name C"
      using pn ab by auto
    show ?thesis
      unfolding buildMember_def buildMemberSchema_def
        lazy_member_parts [OF np C cl] by simp
  qed
  have bd: "\<exists>pre post. body X es = pre @ buildSchema X P (snd (sort X es)) @ [''''] @ post"
    if "P \<in> {A, B}" for P
  proof -
    have "P \<in> set (snd (sort X es))" using that ab by auto
    then show ?thesis by (rule circular_entity_in_body)
  qed
  show ?thesis
  proof (intro conjI ballI impI)
    show "A \<in> set (snd (sort X es))" using ab by simp
    show "B \<in> set (snd (sort X es))" using ab by simp
  next
    fix P :: schema assume "P \<in> {A, B}"
    then show "\<exists>pre post. body X es = pre @ buildSchema X P (snd (sort X es)) @ [''''] @ post"
      by (rule bd)
  next
    fix P :: schema and m :: member
    assume "\<not> isPrimitive m \<and> pascal X (typeName m) \<in> {name A, name B}
                 \<and> camel X (pascal X (typeName m)) = camel X (typeName m)"
    then have np: "\<not> isPrimitive m" and pn: "pascal X (typeName m) \<in> {name A, name B}"
      and cl: "camel X (pascal X (typeName m)) = camel X (typeName m)"
      by simp_all
    show "buildMember X m P (snd (sort X es))
                     = [camel X (member_name m) @ '': ''
                        @ join ''.''
                            ((z @ ''.lazy(()=>'' @ pascal X (typeName m) @ ''Schema)'')
                             # array_parts m
                             @ optional_parts m
                                 \<lparr>preventOptional = False,
                                  circular = Some (snd (sort X es))\<rparr>)
                        @ '','']"
      by (rule mem [OF np pn cl])
  next
    fix P :: schema and m :: member
    assume "m \<in> set (declared_members P)"
    then show "set (buildMember X m P (snd (sort X es)))
                       \<subseteq> set (buildSchema X P (snd (sort X es)))"
      by (rule declared_member_emitted)
  qed
qed

lemma example_node_edge_lazy:
  "distinct (map name [node_entity, edge_entity])
   \<and> node_entity \<in> set [node_entity, edge_entity]
   \<and> edge_entity \<in> set [node_entity, edge_entity]
   \<and> refers_to example_externals node_entity edge_entity
   \<and> refers_to example_externals edge_entity node_entity
   \<and> node_entity \<in> set (snd (sort example_externals [node_entity, edge_entity]))
   \<and> edge_entity \<in> set (snd (sort example_externals [node_entity, edge_entity]))
   \<and> reference_member (Some Property) ''edge'' ''edge'' \<in> set (declared_members node_entity)
   \<and> \<not> isPrimitive (reference_member (Some Property) ''edge'' ''edge'')
   \<and> pascal example_externals (typeName (reference_member (Some Property) ''edge'' ''edge''))
       \<in> {name node_entity, name edge_entity}
   \<and> camel example_externals
         (pascal example_externals (typeName (reference_member (Some Property) ''edge'' ''edge'')))
       = camel example_externals (typeName (reference_member (Some Property) ''edge'' ''edge''))
   \<and> buildMember example_externals (reference_member (Some Property) ''edge'' ''edge'')
        node_entity (snd (sort example_externals [node_entity, edge_entity]))
       = [''edge: z.lazy(()=>EdgeSchema),'']
   \<and> set (buildMember example_externals (reference_member (Some Property) ''edge'' ''edge'')
        node_entity (snd (sort example_externals [node_entity, edge_entity])))
       \<subseteq> set (buildSchema example_externals node_entity
                (snd (sort example_externals [node_entity, edge_entity])))"
proof -
  let ?m = "reference_member (Some Property) ''edge'' ''edge''"
  let ?circ = "snd (sort example_externals [node_entity, edge_entity])"
  have h1: "distinct (map name [node_entity, edge_entity])" by code_simp
  have h2: "node_entity \<in> set [node_entity, edge_entity]" by simp
  have h3: "edge_entity \<in> set [node_entity, edge_entity]" by simp
  have h4: "refers_to example_externals node_entity edge_entity"
    by code_simp
  have h5: "refers_to example_externals edge_entity node_entity"
    by code_simp
  have m1: "?m \<in> set (declared_members node_entity)" by code_simp
  have m2: "\<not> isPrimitive ?m" by (simp add: reference_member_def)
  have m3: "pascal example_externals (typeName ?m) \<in> {name node_entity, name edge_entity}"
    by code_simp
  have m4: "camel example_externals (pascal example_externals (typeName ?m))
          = camel example_externals (typeName ?m)"
    by code_simp
  note t = circular_pair_lazy_members [OF h1 h2 h3 h4 h5]
  from t have c1: "node_entity \<in> set ?circ" and c2: "edge_entity \<in> set ?circ"
    by simp_all
  have inset: "node_entity \<in> {node_entity, edge_entity}" by simp
  note p = t [THEN conjunct2, THEN conjunct2, THEN bspec, OF inset, THEN conjunct2]
  note r = p [THEN bspec, OF m1, THEN mp, OF conjI [OF m2 conjI [OF m3 m4]]]
  have v: "[camel example_externals (member_name ?m) @ '': ''
                        @ join ''.''
                            ((z @ ''.lazy(()=>'' @ pascal example_externals (typeName ?m)
                              @ ''Schema)'')
                             # array_parts ?m
                             @ optional_parts ?m
                                 \<lparr>preventOptional = False, circular = Some ?circ\<rparr>)
                        @ '','']
         = [''edge: z.lazy(()=>EdgeSchema),'']"
    by code_simp
  from r [THEN conjunct1] have r1: "buildMember example_externals ?m node_entity ?circ
                     = [''edge: z.lazy(()=>EdgeSchema),'']"
    unfolding v .
  from r have r2: "set (buildMember example_externals ?m node_entity ?circ)
                       \<subseteq> set (buildSchema example_externals node_entity ?circ)"
    by (rule conjunct2)
  show ?thesis
    by (intro conjI) (fact h1 h2 h3 h4 h5 c1 c2 m1 m2 m3 m4 r1 r2)+
qed

text \<open>
  C2. The code does not do for a union what the claim says, and what it does for the
  properties of a record type, the parameters of a method and the required keys of a map:
  the \<open>'Union'\<close> case of \<open>buildSchema\<close> never looks at the circular list. The unions
  \<open>Tree\<close> and \<open>Forest\<close> refer to each other, and both end in the circular list; yet
  the lines of \<open>Tree\<close> name \<open>ForestSchema\<close> directly, and they stand before the line
  that declares \<open>ForestSchema\<close>.
\<close>

theorem circular_union_variant_not_lazy:
  "refers_to example_externals tree_union forest_union
   \<and> refers_to example_externals forest_union tree_union
   \<and> sort example_externals [tree_union, forest_union, leaf_entity]
       = ([leaf_entity], [tree_union, forest_union])
   \<and> buildSchema example_externals tree_union [tree_union, forest_union]
       = [''export const TreeSchema = z.union(['', ''ForestSchema,'', ''LeafSchema,'', '']);'']
   \<and> body example_externals [tree_union, forest_union, leaf_entity]
       = [''export const LeafSchema = z.enum(['', ''  '' @ quoted ''green'' @ '','', '']);'',
          '''',
          ''export const TreeSchema = z.union(['', ''ForestSchema,'', ''LeafSchema,'', '']);'',
          '''',
          ''export const ForestSchema = z.union(['', ''TreeSchema,'', ''LeafSchema,'', '']);'',
          '''']"
  by code_simp

text \<open>
  The same happens when only one of the two entities is a union: \<open>Shape\<close> names
  \<open>GroupSchema\<close> directly, while \<open>Group\<close> refers to \<open>Shape\<close> lazily.
\<close>

lemma example_shape_group_lines:
  "sort example_externals [shape_entity, group_entity, color_entity]
     = ([color_entity], [shape_entity, group_entity])
   \<and> buildSchema example_externals shape_entity [shape_entity, group_entity]
     = [''export const ShapeSchema = z.union(['', ''GroupSchema,'', ''ColorSchema,'', '']);'']
   \<and> buildSchema example_externals group_entity [shape_entity, group_entity]
     = [''export const GroupSchema = '', ''z.object({'',
        ''first: z.lazy(()=>ShapeSchema),'', ''})'']"
  by code_simp

section \<open>Properties of the rule mapper\<close>

lemma shouldCoerce_iff:
  "shouldCoerce X m parent \<longleftrightarrow> bound_to_header_query_path X m parent"
  unfolding shouldCoerce_def bound_to_header_query_path_def
  by (auto split: element.splits option.splits)

lemma reference_not_coerce_number: "xs @ ''Schema'' \<noteq> ''z.coerce.number()''"
proof
  assume "xs @ ''Schema'' = ''z.coerce.number()''"
  then have "last (xs @ ''Schema'') = last ''z.coerce.number()''" by (rule arg_cong)
  then show False by simp
qed

lemma reference_not_coerce_boolean: "xs @ ''Schema'' \<noteq> ''z.coerce.boolean()''"
proof
  assume "xs @ ''Schema'' = ''z.coerce.boolean()''"
  then have "last (xs @ ''Schema'') = last ''z.coerce.boolean()''" by (rule arg_cong)
  then show False by simp
qed

lemma number_parts_head:
  "const_value m = None \<Longrightarrow>
     \<exists>rest. number_parts X m parent
       = (if shouldCoerce X m parent then ''z.coerce.number()'' else ''z.number()'') # rest"
  unfolding number_parts_def coerce_text_def z_def by simp

lemma boolean_parts_head:
  "const_value m = None \<Longrightarrow>
     \<exists>rest. boolean_parts X m parent
       = (if shouldCoerce X m parent then ''z.coerce.boolean()'' else ''z.boolean()'') # rest"
  unfolding boolean_parts_def coerce_text_def z_def by simp

lemma string_parts_no_coerce:
  "string_parts m \<noteq> ''z.coerce.number()'' # rest"
  "string_parts m \<noteq> ''z.coerce.boolean()'' # rest"
  unfolding string_parts_def z_def by (auto split: option.splits)

lemma number_parts_coerce:
  assumes "number_parts X m parent = c # rest" "c = ''z.coerce.number()'' \<or> c = ''z.coerce.boolean()''"
  shows "shouldCoerce X m parent"
  using assms unfolding number_parts_def coerce_text_def z_def
  by (auto split: option.splits if_splits)

lemma boolean_parts_coerce:
  assumes "boolean_parts X m parent = c # rest" "c = ''z.coerce.number()'' \<or> c = ''z.coerce.boolean()''"
  shows "shouldCoerce X m parent"
  using assms unfolding boolean_parts_def coerce_text_def z_def
  by (auto split: option.splits if_splits)

lemma array_parts_no_coerce:
  "array_parts m @ others \<noteq> ''z.coerce.number()'' # rest \<or> array_parts m = []"
  "array_parts m @ others \<noteq> ''z.coerce.boolean()'' # rest \<or> array_parts m = []"
  unfolding array_parts_def by auto

lemma optional_parts_no_coerce:
  "optional_parts m opts \<noteq> ''z.coerce.number()'' # rest"
  "optional_parts m opts \<noteq> ''z.coerce.boolean()'' # rest"
  unfolding optional_parts_def by auto

lemma tail_parts_no_coerce:
  assumes "c = ''z.coerce.number()'' \<or> c = ''z.coerce.boolean()''"
  shows "array_parts m @ optional_parts m opts \<noteq> c # rest"
proof (cases "array_parts m = []")
  case True
  then show ?thesis using assms optional_parts_no_coerce [of m opts rest] by auto
next
  case False
  then show ?thesis
    using assms array_parts_no_coerce [of m "optional_parts m opts" rest] by auto
qed

lemma primitive_parts_coerce:
  assumes "primitive_parts X m parent = c # rest"
    and "c = ''z.coerce.number()'' \<or> c = ''z.coerce.boolean()''"
  shows "shouldCoerce X m parent"
proof -
  consider (null) "typeName m = ''null''"
    | (str) "typeName m \<noteq> ''null''" "typeName m = ''string''"
    | (num) "typeName m \<noteq> ''null''" "typeName m \<noteq> ''string''"
        "typeName m \<in> {''number'', ''integer'', ''long'', ''float'', ''double''}"
    | (bool) "typeName m \<noteq> ''null''" "typeName m \<noteq> ''string''"
        "typeName m \<notin> {''number'', ''integer'', ''long'', ''float'', ''double''}"
        "typeName m = ''boolean''"
    | (other) "typeName m \<noteq> ''null''" "typeName m \<noteq> ''string''"
        "typeName m \<notin> {''number'', ''integer'', ''long'', ''float'', ''double''}"
        "typeName m \<noteq> ''boolean''"
    by blast
  then show ?thesis
  proof cases
    case null
    then have "primitive_parts X m parent = [''z.literal(null)'']"
      unfolding primitive_parts_def z_def by simp
    then show ?thesis using assms by auto
  next
    case str
    then have "primitive_parts X m parent = string_parts m"
      unfolding primitive_parts_def by simp
    then show ?thesis using assms string_parts_no_coerce [of m rest] by auto
  next
    case num
    then have eq: "primitive_parts X m parent = number_parts X m parent"
      unfolding primitive_parts_def by simp
    show ?thesis by (rule number_parts_coerce [OF assms(1) [unfolded eq] assms(2)])
  next
    case bool
    then have eq: "primitive_parts X m parent = boolean_parts X m parent"
      unfolding primitive_parts_def by simp
    show ?thesis by (rule boolean_parts_coerce [OF assms(1) [unfolded eq] assms(2)])
  next
    case other
    then have "primitive_parts X m parent = [''z.coerce.date()'']
             \<or> primitive_parts X m parent = [''z.any()'']
             \<or> primitive_parts X m parent = []"
      unfolding primitive_parts_def z_def by simp
    then show ?thesis using assms by auto
  qed
qed

lemma schema_parts_coerce:
  assumes "schema_parts X m parent opts = c # rest"
    and c: "c = ''z.coerce.number()'' \<or> c = ''z.coerce.boolean()''"
  shows "isPrimitive m \<and> shouldCoerce X m parent"
proof (cases "isPrimitive m")
  case True
  then have eq: "primitive_parts X m parent @ array_parts m @ optional_parts m opts = c # rest"
    using assms(1) unfolding schema_parts_def by simp
  have "primitive_parts X m parent \<noteq> []"
    using eq tail_parts_no_coerce [OF c, of m opts rest] by auto
  then obtain r where "primitive_parts X m parent = c # r"
    using eq by (cases "primitive_parts X m parent") auto
  then show ?thesis using True primitive_parts_coerce [OF _ c] by blast
next
  case False
  then have "reference_parts X m parent opts @ array_parts m @ optional_parts m opts = c # rest"
    using assms(1) unfolding schema_parts_def by simp
  then have "z @ ''.lazy(()=>'' @ pascal X (typeName m) @ ''Schema)'' = c
           \<or> pascal X (typeName m) @ ''Schema'' = c"
    unfolding reference_parts_def by (auto split: if_splits)
  then show ?thesis
    using c reference_not_coerce_number reference_not_coerce_boolean
    unfolding z_def by auto
qed

text \<open>
  C5. A primitive member without a constant, of a numeric type, starts its schema with the
  number constructor, and of type \<open>boolean\<close> with the boolean constructor; the
  constructor is the coercing one exactly when the member is a parameter of a method whose
  HTTP binding puts it in a header, the query or the path. No member of any other shape
  ever starts with a coercing number or boolean constructor: a member with a constant gets
  a literal.
\<close>

theorem coercion_iff_bound_parameter:
  "(isPrimitive m \<and> const_value m = None
      \<and> typeName m \<in> {''number'', ''integer'', ''long'', ''float'', ''double''} \<longrightarrow>
      (\<exists>rest. schema_parts X m parent opts
         = (if bound_to_header_query_path X m parent
            then ''z.coerce.number()'' else ''z.number()'') # rest))
   \<and> (isPrimitive m \<and> const_value m = None \<and> typeName m = ''boolean'' \<longrightarrow>
      (\<exists>rest. schema_parts X m parent opts
         = (if bound_to_header_query_path X m parent
            then ''z.coerce.boolean()'' else ''z.boolean()'') # rest))
   \<and> ((\<exists>rest. schema_parts X m parent opts = ''z.coerce.number()'' # rest
               \<or> schema_parts X m parent opts = ''z.coerce.boolean()'' # rest) \<longrightarrow>
      bound_to_header_query_path X m parent)"
proof (intro conjI impI)
  assume h: "isPrimitive m \<and> const_value m = None
      \<and> typeName m \<in> {''number'', ''integer'', ''long'', ''float'', ''double''}"
  then have "primitive_parts X m parent = number_parts X m parent"
    unfolding primitive_parts_def by auto
  moreover obtain r where "number_parts X m parent
       = (if shouldCoerce X m parent then ''z.coerce.number()'' else ''z.number()'') # r"
    using h number_parts_head by blast
  ultimately show "\<exists>rest. schema_parts X m parent opts
         = (if bound_to_header_query_path X m parent
            then ''z.coerce.number()'' else ''z.number()'') # rest"
    using h unfolding schema_parts_def shouldCoerce_iff by simp
next
  assume h: "isPrimitive m \<and> const_value m = None \<and> typeName m = ''boolean''"
  then have "primitive_parts X m parent = boolean_parts X m parent"
    unfolding primitive_parts_def by simp
  moreover obtain r where "boolean_parts X m parent
       = (if shouldCoerce X m parent then ''z.coerce.boolean()'' else ''z.boolean()'') # r"
    using h boolean_parts_head by blast
  ultimately show "\<exists>rest. schema_parts X m parent opts
         = (if bound_to_header_query_path X m parent
            then ''z.coerce.boolean()'' else ''z.boolean()'') # rest"
    using h unfolding schema_parts_def shouldCoerce_iff by simp
next
  assume "\<exists>rest. schema_parts X m parent opts = ''z.coerce.number()'' # rest
               \<or> schema_parts X m parent opts = ''z.coerce.boolean()'' # rest"
  then obtain c rest where "schema_parts X m parent opts = c # rest"
    "c = ''z.coerce.number()'' \<or> c = ''z.coerce.boolean()''"
    by blast
  then have "shouldCoerce X m parent" using schema_parts_coerce by blast
  then show "bound_to_header_query_path X m parent" unfolding shouldCoerce_iff .
qed

theorem coercion_iff_bound_parameter_witness:
  "isPrimitive limit_parameter \<and> const_value limit_parameter = None
   \<and> typeName limit_parameter \<in> {''number'', ''integer'', ''long'', ''float'', ''double''}
   \<and> bound_to_header_query_path bound_externals limit_parameter list_users_params
   \<and> (\<exists>rest. schema_parts bound_externals limit_parameter list_users_params no_options
         = ''z.coerce.number()'' # rest)
   \<and> isPrimitive payload_parameter \<and> const_value payload_parameter = None
   \<and> typeName payload_parameter \<in> {''number'', ''integer'', ''long'', ''float'', ''double''}
   \<and> \<not> bound_to_header_query_path bound_externals payload_parameter list_users_params
   \<and> (\<exists>rest. schema_parts bound_externals payload_parameter list_users_params no_options
         = ''z.number()'' # rest)"
proof -
  have l1: "isPrimitive limit_parameter" and l2: "const_value limit_parameter = None"
    and l3: "typeName limit_parameter \<in> {''number'', ''integer'', ''long'', ''float'', ''double''}"
    by (simp_all add: limit_parameter_def primitive_member_def)
  have p1: "isPrimitive payload_parameter" and p2: "const_value payload_parameter = None"
    and p3: "typeName payload_parameter \<in> {''number'', ''integer'', ''long'', ''float'', ''double''}"
    by (simp_all add: payload_parameter_def primitive_member_def)
  have "shouldCoerce bound_externals limit_parameter list_users_params"
    by code_simp
  then have bl: "bound_to_header_query_path bound_externals limit_parameter list_users_params"
    unfolding shouldCoerce_iff .
  have "\<not> shouldCoerce bound_externals payload_parameter list_users_params"
    by code_simp
  then have bp: "\<not> bound_to_header_query_path bound_externals payload_parameter list_users_params"
    unfolding shouldCoerce_iff .
  have "\<exists>rest. schema_parts bound_externals limit_parameter list_users_params no_options
         = (if bound_to_header_query_path bound_externals limit_parameter list_users_params
            then ''z.coerce.number()'' else ''z.number()'') # rest"
    using coercion_iff_bound_parameter
            [of limit_parameter bound_externals list_users_params no_options] l1 l2 l3
    by blast
  then have r1: "\<exists>rest. schema_parts bound_externals limit_parameter list_users_params no_options
         = ''z.coerce.number()'' # rest"
    unfolding if_P [OF bl] .
  have "\<exists>rest. schema_parts bound_externals payload_parameter list_users_params no_options
         = (if bound_to_header_query_path bound_externals payload_parameter list_users_params
            then ''z.coerce.number()'' else ''z.number()'') # rest"
    using coercion_iff_bound_parameter
            [of payload_parameter bound_externals list_users_params no_options] p1 p2 p3
    by blast
  then have r2: "\<exists>rest. schema_parts bound_externals payload_parameter list_users_params no_options
         = ''z.number()'' # rest"
    unfolding if_not_P [OF bp] .
  show ?thesis
    by (intro conjI) (fact l1 l2 l3 bl r1 p1 p2 p3 bp r2)+
qed

lemma example_bound_parameters:
  "buildSchema bound_externals list_users_params []
     = [''export const ListUsersParamsSchema = z.object({'',
        ''limit: z.coerce.number().int(),'',
        ''payload: z.number().int(),'',
        ''});'']"
  by code_simp

text \<open>
  C6. For a string member without a constant and without an enum rule: a min-length rule
  of 1 and no max-length rule give \<open>nonempty()\<close> right after the string constructor, and
  equal min-length and max-length rules give the single constraint \<open>length(n)\<close>; in both
  cases only the pattern, the default, the array and the optional parts follow.
\<close>

theorem string_length_constraints:
  assumes "isPrimitive m" "typeName m = ''string''" "const_value m = None"
    and "find_rule string_enum (rules m) = None"
  shows "(find_rule string_min_length (rules m) = Some 1
          \<and> find_rule string_max_length (rules m) = None \<longrightarrow>
            schema_parts X m parent opts
              = [''z.string()'', ''nonempty()'']
                @ (case find_rule string_pattern (rules m) of
                     None \<Rightarrow> [] | Some p \<Rightarrow> [''regex(/'' @ p @ ''/)''])
                @ (case default_value m of
                     None \<Rightarrow> [] | Some d \<Rightarrow> [''default('' @ quoted d @ '')''])
                @ array_parts m @ optional_parts m opts)
       \<and> (\<forall>n. find_rule string_min_length (rules m) = Some n
               \<and> find_rule string_max_length (rules m) = Some n \<longrightarrow>
            schema_parts X m parent opts
              = [''z.string()'', ''length('' @ show_int n @ '')'']
                @ (case find_rule string_pattern (rules m) of
                     None \<Rightarrow> [] | Some p \<Rightarrow> [''regex(/'' @ p @ ''/)''])
                @ (case default_value m of
                     None \<Rightarrow> [] | Some d \<Rightarrow> [''default('' @ quoted d @ '')''])
                @ array_parts m @ optional_parts m opts)"
  using assms
  unfolding schema_parts_def primitive_parts_def string_parts_def string_length_parts_def z_def
  by (simp add: Let_def)

theorem string_length_constraints_witness:
  "isPrimitive name_property \<and> typeName name_property = ''string''
   \<and> const_value name_property = None \<and> find_rule string_enum (rules name_property) = None
   \<and> find_rule string_min_length (rules name_property) = Some 1
   \<and> find_rule string_max_length (rules name_property) = None
   \<and> schema_parts example_externals name_property account_entity no_options
       = [''z.string()'', ''nonempty()'']
   \<and> isPrimitive code_property \<and> typeName code_property = ''string''
   \<and> const_value code_property = None \<and> find_rule string_enum (rules code_property) = None
   \<and> find_rule string_min_length (rules code_property) = Some 3
   \<and> find_rule string_max_length (rules code_property) = Some 3
   \<and> schema_parts example_externals code_property account_entity no_options
       = [''z.string()'', ''length('' @ show_int 3 @ '')'']"
proof -
  have n: "isPrimitive name_property" "typeName name_property = ''string''"
    "const_value name_property = None" "find_rule string_enum (rules name_property) = None"
    by (simp_all add: name_property_def primitive_member_def)
  have n': "find_rule string_min_length (rules name_property) = Some 1"
    "find_rule string_max_length (rules name_property) = None"
    "find_rule string_pattern (rules name_property) = None"
    "default_value name_property = None"
    "array_parts name_property = []" "optional_parts name_property no_options = []"
    by (simp_all add: name_property_def primitive_member_def array_parts_def
        optional_parts_def)
  have c: "isPrimitive code_property" "typeName code_property = ''string''"
    "const_value code_property = None" "find_rule string_enum (rules code_property) = None"
    by (simp_all add: code_property_def primitive_member_def)
  have c': "find_rule string_min_length (rules code_property) = Some 3"
    "find_rule string_max_length (rules code_property) = Some 3"
    "find_rule string_pattern (rules code_property) = None"
    "default_value code_property = None"
    "array_parts code_property = []" "optional_parts code_property no_options = []"
    by (simp_all add: code_property_def primitive_member_def array_parts_def
        optional_parts_def)
  show ?thesis
    using string_length_constraints [OF n, of example_externals account_entity no_options]
          string_length_constraints [OF c, of example_externals account_entity no_options]
          n n' c c'
    by simp
qed

lemma example_account_lengths:
  "buildSchema example_externals account_entity []
     = [''export const AccountSchema = '', ''z.object({'',
        ''name: z.string().nonempty(),'', ''code: z.string().length(3),'', ''})'']"
  by code_simp

section \<open>Properties of the synthesizer\<close>

text \<open>
  C7, as the code has it. The lines of a record type are the key constants, the export
  line, the structural schema, the key count refinements and the key validation, in that
  order. The refinements are emitted only for a record type with map properties: then
  there is one for the max-key-count rule, if present, followed by one for the
  min-key-count rule, if present, each with its bound and its message. Without map
  properties nothing stands between the structural schema and the end.
\<close>

theorem key_count_refinements_need_map_properties:
  assumes "element s = TypeEl t"
  shows "buildSchema X s circ
       = type_key_constants X s t
         @ [''export const '' @ pascal X (name s) @ ''Schema = '']
         @ type_structure X s t circ
         @ (if mapProperties t = None then []
            else (case find_rule object_max_properties (type_rules t) of
                    None \<Rightarrow> []
                  | Some mx \<Rightarrow>
                      [''.refine('',
                       ''  data => Object.keys(data).length <= '' @ show_int mx @ '','',
                       ''  { message: ''
                         @ quoted (''Object must have at most '' @ show_int mx @ '' keys'')
                         @ '' },'',
                       '')''])
                 @ (case find_rule object_min_properties (type_rules t) of
                      None \<Rightarrow> []
                    | Some mn \<Rightarrow>
                        [''.refine('',
                         ''  data => Object.keys(data).length >= '' @ show_int mn @ '','',
                         ''  { message: ''
                           @ quoted (''Object must have at least '' @ show_int mn @ '' keys'')
                           @ '' },'',
                         '')'']))
         @ type_key_validation X s t"
proof (cases "mapProperties t")
  case None
  then show ?thesis
    using assms unfolding buildSchema_def type_refinements_def by simp
next
  case (Some mp)
  then show ?thesis
    using assms
    unfolding buildSchema_def type_refinements_def max_refinement_def min_refinement_def
    by simp
qed

theorem key_count_refinements_need_map_properties_witness:
  "buildSchema example_externals limits_entity []
     = [''export const LimitsSchema = '',
        ''z.record(z.number())'',
        ''.refine('',
        ''  data => Object.keys(data).length <= 5,'',
        ''  { message: '' @ quoted ''Object must have at most 5 keys'' @ '' },'',
        '')'',
        ''.refine('',
        ''  data => Object.keys(data).length >= 1,'',
        ''  { message: '' @ quoted ''Object must have at least 1 keys'' @ '' },'',
        '')'']"
proof -
  have e: "element limits_entity
      = TypeEl \<lparr>properties = [],
         mapProperties = Some
           \<lparr>key = primitive_member (Some MapKey) [] ''string'' [],
            map_value = primitive_member (Some MapValue) [] ''number'' [],
            requiredKeys = []\<rparr>,
         type_rules = [ObjectMinProperties 1, ObjectMaxProperties 5]\<rparr>"
    by (simp add: limits_entity_def)
  have a: "type_key_constants example_externals limits_entity
        \<lparr>properties = [],
         mapProperties = Some
           \<lparr>key = primitive_member (Some MapKey) [] ''string'' [],
            map_value = primitive_member (Some MapValue) [] ''number'' [],
            requiredKeys = []\<rparr>,
         type_rules = [ObjectMinProperties 1, ObjectMaxProperties 5]\<rparr> = []"
    by code_simp
  have b: "type_structure example_externals limits_entity
        \<lparr>properties = [],
         mapProperties = Some
           \<lparr>key = primitive_member (Some MapKey) [] ''string'' [],
            map_value = primitive_member (Some MapValue) [] ''number'' [],
            requiredKeys = []\<rparr>,
         type_rules = [ObjectMinProperties 1, ObjectMaxProperties 5]\<rparr> []
       = [''z.record(z.number())'']"
    by code_simp
  have c: "type_key_validation example_externals limits_entity
        \<lparr>properties = [],
         mapProperties = Some
           \<lparr>key = primitive_member (Some MapKey) [] ''string'' [],
            map_value = primitive_member (Some MapValue) [] ''number'' [],
            requiredKeys = []\<rparr>,
         type_rules = [ObjectMinProperties 1, ObjectMaxProperties 5]\<rparr> = []"
    by code_simp
  have p: "pascal example_externals (name limits_entity) = ''Limits''"
    by code_simp
  have n: "show_int 5 = ''5''" "show_int 1 = ''1''"
    by (simp_all add: show_int_def show_nat.simps)
  show ?thesis
    unfolding key_count_refinements_need_map_properties [OF e] a b c p
    by (simp add: n)
qed

text \<open>
  C7, as stated, fails: a record type with both key count rules and no map properties
  gets no refinement at all.
\<close>

theorem key_count_rules_without_map_properties_ignored:
  "buildSchema example_externals bounded_entity []
     = [''export const BoundedSchema = '', ''z.record(z.any())'']"
  by code_simp

text \<open>
  C9. A union with exactly one variant that is not primitive is emitted as one line, an
  alias of the schema of that variant, whatever primitive variants stand beside it, and
  with or without a discriminator.
\<close>

theorem single_complex_variant_alias:
  assumes "element s = UnionEl u" "filter (\<lambda>m. \<not> isPrimitive m) (members u) = [v]"
  shows "buildSchema X s circ
       = [''export const '' @ pascal X (name s) @ ''Schema = ''
          @ pascal X (typeName v) @ ''Schema;'']"
  using assms unfolding buildSchema_def union_lines_def by simp

theorem single_complex_variant_alias_witness:
  "element pet_union
     = UnionEl \<lparr>members = [primitive_member None [] ''string'' [],
                            reference_member None [] ''dog''],
                 discriminator = None\<rparr>
   \<and> filter (\<lambda>m. \<not> isPrimitive m)
        (members \<lparr>members = [primitive_member None [] ''string'' [],
                             reference_member None [] ''dog''],
                  discriminator = None\<rparr>)
       = [reference_member None [] ''dog'']
   \<and> buildSchema example_externals pet_union [] = [''export const PetSchema = DogSchema;'']"
proof -
  have e: "element pet_union
     = UnionEl \<lparr>members = [primitive_member None [] ''string'' [],
                            reference_member None [] ''dog''],
                 discriminator = None\<rparr>"
    by (simp add: pet_union_def union_schema_def)
  have f: "filter (\<lambda>m. \<not> isPrimitive m)
        (members \<lparr>members = [primitive_member None [] ''string'' [],
                             reference_member None [] ''dog''],
                  discriminator = None\<rparr>)
       = [reference_member None [] ''dog'']"
    by (simp add: primitive_member_def reference_member_def)
  have p: "pascal example_externals (name pet_union) = ''Pet''"
    "pascal example_externals (typeName (reference_member None [] ''dog'')) = ''Dog''"
    by code_simp+
  show ?thesis
    using single_complex_variant_alias [OF e f, of example_externals "[]"] e f
    unfolding p by simp
qed

declare sort_loop_sf.simps [simp del]

lemma sort_loop_sf_unfold:
  "sort_loop_sf X sorted_out unsorted sortedNames prev =
     (if unsorted = [] then sorted_out
      else if prev = length (filter (\<lambda>s. \<not> is_sortable_sf X sortedNames s) unsorted)
           then sorted_out
                @ array_sort (\<lambda>a b. localeCompare X (name_sf a) (name_sf b))
                    (filter (is_sortable_sf X sortedNames) unsorted)
           else sort_loop_sf X
                  (sorted_out
                   @ array_sort (\<lambda>a b. localeCompare X (name_sf a) (name_sf b))
                       (filter (is_sortable_sf X sortedNames) unsorted))
                  (filter (\<lambda>s. \<not> is_sortable_sf X sortedNames s) unsorted)
                  (sortedNames \<union> set (map name_sf (filter (is_sortable_sf X sortedNames) unsorted)))
                  (length (filter (\<lambda>s. \<not> is_sortable_sf X sortedNames s) unsorted)))"
  by (subst sort_loop_sf.simps) (simp add: Let_def)

lemma sort_loop_sf_prefix:
  "\<exists>rest. sort_loop_sf X sorted_out unsorted sortedNames prev = sorted_out @ rest"
proof (induction X sorted_out unsorted sortedNames prev rule: sort_loop_sf.induct)
  case (1 X sorted_out unsorted sortedNames prev)
  show ?case
  proof (cases "unsorted = []")
    case True
    then show ?thesis by (subst sort_loop_sf_unfold) simp
  next
    case ne: False
    show ?thesis
    proof (cases "prev = length (filter (\<lambda>s. \<not> is_sortable_sf X sortedNames s) unsorted)")
      case True
      then show ?thesis using ne by (subst sort_loop_sf_unfold) simp
    next
      case False
      have "\<exists>rest. sort_loop_sf X
                  (sorted_out
                   @ array_sort (\<lambda>a b. localeCompare X (name_sf a) (name_sf b))
                       (filter (is_sortable_sf X sortedNames) unsorted))
                  (filter (\<lambda>s. \<not> is_sortable_sf X sortedNames s) unsorted)
                  (sortedNames \<union> set (map name_sf (filter (is_sortable_sf X sortedNames) unsorted)))
                  (length (filter (\<lambda>s. \<not> is_sortable_sf X sortedNames s) unsorted))
              = (sorted_out
                   @ array_sort (\<lambda>a b. localeCompare X (name_sf a) (name_sf b))
                       (filter (is_sortable_sf X sortedNames) unsorted)) @ rest"
        using ne False by (intro "1.IH" [OF _ refl refl refl refl refl]) simp_all
      then show ?thesis using ne False by (subst sort_loop_sf_unfold) auto
    qed
  qed
qed

lemma sort_loop_sf_ready:
  assumes "s \<in> set unsorted" "is_sortable_sf X sortedNames s"
  shows "s \<in> set (sort_loop_sf X sorted_out unsorted sortedNames prev)"
proof -
  let ?layer = "array_sort (\<lambda>a b. localeCompare X (name_sf a) (name_sf b))
                  (filter (is_sortable_sf X sortedNames) unsorted)"
  have ne: "unsorted \<noteq> []" using assms(1) by auto
  have in_layer: "s \<in> set ?layer" using assms by (simp add: set_array_sort)
  show ?thesis
  proof (cases "prev = length (filter (\<lambda>s. \<not> is_sortable_sf X sortedNames s) unsorted)")
    case True
    then have "sort_loop_sf X sorted_out unsorted sortedNames prev = sorted_out @ ?layer"
      using ne by (subst sort_loop_sf_unfold) simp
    then show ?thesis using in_layer by simp
  next
    case False
    obtain rest where "sort_loop_sf X (sorted_out @ ?layer)
                  (filter (\<lambda>s. \<not> is_sortable_sf X sortedNames s) unsorted)
                  (sortedNames \<union> set (map name_sf (filter (is_sortable_sf X sortedNames) unsorted)))
                  (length (filter (\<lambda>s. \<not> is_sortable_sf X sortedNames s) unsorted))
              = (sorted_out @ ?layer) @ rest"
      using sort_loop_sf_prefix by blast
    then have "sort_loop_sf X sorted_out unsorted sortedNames prev = (sorted_out @ ?layer) @ rest"
      using ne False by (subst sort_loop_sf_unfold) simp
    then show ?thesis using in_layer by simp
  qed
qed

lemma sort_loop_ready:
  assumes "s \<in> set unsorted" "is_sortable X sortedNames s"
  shows "s \<in> set (fst (sort_loop X sorted_out unsorted sortedNames prev))"
proof -
  have ne: "unsorted \<noteq> []" using assms(1) by auto
  obtain rest where "fst (sort_loop X sorted_out unsorted sortedNames prev)
           = sorted_out @ sortedSortable X sortedNames unsorted @ rest"
    using sort_loop_layer [OF ne] by blast
  moreover have "s \<in> set (sortedSortable X sortedNames unsorted)"
    using assms by (simp add: set_sortedSortable)
  ultimately show ?thesis by simp
qed

lemma sorted_entity_in_body:
  assumes "P \<in> set (fst (sort X es))"
  shows "\<exists>pre post. body X es = pre @ buildSchema X P [] @ [''''] @ post"
proof -
  obtain pre post where
    "concat (map (\<lambda>s. buildSchema X s [] @ ['''']) (fst (sort X es)))
       = pre @ (buildSchema X P [] @ ['''']) @ post"
    using concat_map_segment [OF assms, of "\<lambda>s. buildSchema X s [] @ ['''']"] by blast
  then have "body X es
      = pre @ buildSchema X P [] @ ['''']
        @ (post @ concat (map (\<lambda>s. buildSchema X s (snd (sort X es)) @ ['''']) (snd (sort X es))))"
    unfolding body_def by (simp add: case_prod_beta)
  then show ?thesis by blast
qed

lemma primitive_union_lines_sf:
  assumes "element_sf s = PrimitiveUnion_sf ms" "length ms \<noteq> 1"
  shows "schema_lines_sf X s
       = [''export const '' @ pascal X (name_sf s) @ ''Schema = z.union(['',
          ''// Primitive unions are not yet supported'',
          '']);'',
          '''']"
proof (cases ms)
  case Nil
  then show ?thesis
    using assms unfolding schema_lines_sf_def union_lines_sf_def z_def by simp
next
  case (Cons m ms')
  then have "ms' \<noteq> []" using assms(2) by auto
  then obtain m' ms'' where "ms' = m' # ms''" by (cases ms') auto
  then show ?thesis
    using assms Cons unfolding schema_lines_sf_def union_lines_sf_def z_def by simp
qed

lemma primitive_union_lines:
  assumes "element u = UnionEl un" "list_all isPrimitive (members un)"
    "length (members un) \<noteq> 1"
  shows "buildSchema X u circ
       = [''export const '' @ pascal X (name u) @ ''Schema = ''
          @ (case discriminator un of
               Some d \<Rightarrow> ''z.discriminatedUnion('' @ quoted (camel X d) @ '', [''
             | None \<Rightarrow> ''z.union([''  )]
         @ map (\<lambda>m. buildMemberSchema X m u \<lparr>preventOptional = True, circular = None\<rparr> @ '','')
             (members un)
         @ ['']);'']"
proof -
  have f: "filter (\<lambda>m. \<not> isPrimitive m) (members un) = []"
    using assms(2) by (simp add: list_all_iff)
  have m: "map (\<lambda>member.
                      if isPrimitive member
                      then buildMemberSchema X member u
                             \<lparr>preventOptional = True, circular = None\<rparr> @ '',''
                      else pascal X (typeName member) @ ''Schema,'')
                 (members un)
         = map (\<lambda>m. buildMemberSchema X m u \<lparr>preventOptional = True, circular = None\<rparr> @ '','')
             (members un)"
    using assms(2) by (intro map_cong) (simp_all add: list_all_iff)
  show ?thesis
    using assms(1) unfolding buildSchema_def union_lines_def z_def
    by (simp add: f m Let_def split: option.splits)
qed

text \<open>
  C8, as the code has it. Neither variant of the generator has a failing branch for a
  union whose variants are all primitive, and both emit the lines of such a union within
  the output of the run. The generator of \<open>src/schema-file.ts\<close> emits, for a
  \<open>PrimitiveUnion\<close> that does not have exactly one member, the marker comment in place
  of the variants. The other variant of the generator emits no marker: it emits the schema
  of every primitive variant, built with \<open>preventOptional\<close>.
\<close>

theorem primitive_union_output:
  "(element_sf s = PrimitiveUnion_sf ms \<and> length ms \<noteq> 1 \<longrightarrow>
      schema_lines_sf X s
        = [''export const '' @ pascal X (name_sf s) @ ''Schema = z.union(['',
           ''// Primitive unions are not yet supported'',
           '']);'',
           '''']
      \<and> (s \<in> set schemas \<longrightarrow>
           (\<exists>pre post. body_sf X schemas = pre @ schema_lines_sf X s @ post)))
   \<and> (element u = UnionEl un \<and> list_all isPrimitive (members un)
        \<and> length (members un) \<noteq> 1 \<longrightarrow>
      buildSchema X u circ
        = [''export const '' @ pascal X (name u) @ ''Schema = ''
           @ (case discriminator un of
                Some d \<Rightarrow> ''z.discriminatedUnion('' @ quoted (camel X d) @ '', [''
              | None \<Rightarrow> ''z.union([''  )]
          @ map (\<lambda>m. buildMemberSchema X m u \<lparr>preventOptional = True, circular = None\<rparr>
                      @ '','')
              (members un)
          @ ['']);'']
      \<and> (u \<in> set worklist \<longrightarrow>
           (\<exists>pre post. body X worklist = pre @ buildSchema X u [] @ [''''] @ post)))"
proof (intro conjI impI)
  assume h: "element_sf s = PrimitiveUnion_sf ms \<and> length ms \<noteq> 1"
  then show "schema_lines_sf X s
        = [''export const '' @ pascal X (name_sf s) @ ''Schema = z.union(['',
           ''// Primitive unions are not yet supported'',
           '']);'',
           '''']"
    using primitive_union_lines_sf by blast
next
  assume h: "element_sf s = PrimitiveUnion_sf ms \<and> length ms \<noteq> 1"
    and s: "s \<in> set schemas"
  have "is_sortable_sf X {} s"
    using h unfolding is_sortable_sf_def complexMembers_sf_def by simp
  then have "s \<in> set (sort_sf X schemas)"
    unfolding sort_sf_def using s by (intro sort_loop_sf_ready)
  then show "\<exists>pre post. body_sf X schemas = pre @ schema_lines_sf X s @ post"
    unfolding body_sf_def by (rule concat_map_segment)
next
  assume h: "element u = UnionEl un \<and> list_all isPrimitive (members un)
        \<and> length (members un) \<noteq> 1"
  then show "buildSchema X u circ
        = [''export const '' @ pascal X (name u) @ ''Schema = ''
           @ (case discriminator un of
                Some d \<Rightarrow> ''z.discriminatedUnion('' @ quoted (camel X d) @ '', [''
              | None \<Rightarrow> ''z.union([''  )]
          @ map (\<lambda>m. buildMemberSchema X m u \<lparr>preventOptional = True, circular = None\<rparr>
                      @ '','')
              (members un)
          @ ['']);'']"
    using primitive_union_lines by blast
next
  assume h: "element u = UnionEl un \<and> list_all isPrimitive (members un)
        \<and> length (members un) \<noteq> 1"
    and u: "u \<in> set worklist"
  have "complexMembers X u = []"
    using h unfolding complexMembers_def by (simp add: list_all_iff)
  then have "is_sortable X {} u" unfolding is_sortable_def by simp
  then have "u \<in> set (fst (sort X worklist))"
    unfolding sort_def using u by (intro sort_loop_ready)
  then show "\<exists>pre post. body X worklist = pre @ buildSchema X u [] @ [''''] @ post"
    by (rule sorted_entity_in_body)
qed

theorem primitive_union_output_witness:
  "element_sf scalar_union_sf = PrimitiveUnion_sf scalar_variants
   \<and> length scalar_variants \<noteq> 1
   \<and> scalar_union_sf \<in> set [scalar_union_sf]
   \<and> schema_lines_sf example_externals scalar_union_sf
       = [''export const ScalarSchema = z.union(['',
          ''// Primitive unions are not yet supported'',
          '']);'',
          '''']
   \<and> (\<exists>pre post. body_sf example_externals [scalar_union_sf]
                     = pre @ schema_lines_sf example_externals scalar_union_sf @ post)
   \<and> element scalar_union = UnionEl \<lparr>members = scalar_variants, discriminator = None\<rparr>
   \<and> list_all isPrimitive (members \<lparr>members = scalar_variants, discriminator = None\<rparr>)
   \<and> length (members \<lparr>members = scalar_variants, discriminator = None\<rparr>) \<noteq> 1
   \<and> scalar_union \<in> set [scalar_union]
   \<and> (\<exists>pre post. body example_externals [scalar_union]
                     = pre @ buildSchema example_externals scalar_union [] @ [''''] @ post)"
proof -
  note t = primitive_union_output [of scalar_union_sf scalar_variants example_externals
      "[scalar_union_sf]" scalar_union "\<lparr>members = scalar_variants, discriminator = None\<rparr>"
      "[]" "[scalar_union]"]
  have a1: "element_sf scalar_union_sf = PrimitiveUnion_sf scalar_variants"
    by (simp add: scalar_union_sf_def)
  have a2: "length scalar_variants \<noteq> 1" by (simp add: scalar_variants_def)
  have a3: "scalar_union_sf \<in> set [scalar_union_sf]" by simp
  have p: "pascal example_externals (name_sf scalar_union_sf) = ''Scalar''" by code_simp
  have b1: "element scalar_union = UnionEl \<lparr>members = scalar_variants, discriminator = None\<rparr>"
    by (simp add: scalar_union_def union_schema_def)
  have b2: "list_all isPrimitive (members \<lparr>members = scalar_variants, discriminator = None\<rparr>)"
    by (simp add: scalar_variants_def primitive_member_def)
  have b3: "length (members \<lparr>members = scalar_variants, discriminator = None\<rparr>) \<noteq> 1"
    by (simp add: scalar_variants_def)
  have b4: "scalar_union \<in> set [scalar_union]" by simp
  from t a1 a2 have c1: "schema_lines_sf example_externals scalar_union_sf
       = [''export const ScalarSchema = z.union(['',
          ''// Primitive unions are not yet supported'',
          '']);'',
          '''']"
    unfolding p by simp
  from t a1 a2 a3 have c2: "\<exists>pre post. body_sf example_externals [scalar_union_sf]
                     = pre @ schema_lines_sf example_externals scalar_union_sf @ post"
    by blast
  from t b1 b2 b3 b4 have c3: "\<exists>pre post. body example_externals [scalar_union]
                     = pre @ buildSchema example_externals scalar_union [] @ [''''] @ post"
    by blast
  show ?thesis
    by (intro conjI) (fact a1 a2 a3 c1 c2 b1 b2 b3 b4 c3)+
qed

text \<open>
  C8, as stated, fails for the variant of the generator that builds member schemas for
  union variants: the two primitive variants are emitted, and no marker.
\<close>

theorem primitive_union_variants_emitted:
  "buildSchema example_externals scalar_union []
     = [''export const ScalarSchema = z.union(['', ''z.string(),'', ''z.number(),'', '']);'']"
  by code_simp

end
